theory Spec2Isabelle
  imports Main "HOL-Library.Word" "HOL-Library.AList"
begin

section \<open>Basic data\<close>

text \<open>Go byte slices and strings are sequences of 8-bit characters.\<close>

type_synonym bytes = string

text \<open>\<^verbatim>\<open>http.Header\<close> is a \<^verbatim>\<open>map[string][]string\<close>; it is kept as an association
  list with \<^verbatim>\<open>h[k] = v\<close> as \<^const>\<open>AList.update\<close>.\<close>

type_synonym header = "(string \<times> string list) list"

section \<open>Errors and log records\<close>

text \<open>Go \<^verbatim>\<open>error\<close> values met by the proxy. A panic is carried as the value
  \<open>Panic\<close> where a function of the source can raise one.\<close>

datatype error =
    PathError string string
  | ProtocolError
  | NetError string
  | Panic string

fun Error_str :: "error \<Rightarrow> string" where
  "Error_str (PathError opn p) = opn @ '' '' @ p @ '': input/output error''"
| "Error_str ProtocolError = ''malformed HTTP message''"
| "Error_str (NetError m) = m"
| "Error_str (Panic m) = m"

datatype lvl = LvlCrit | LvlError | LvlWarn | LvlInfo | LvlDebug

datatype logval = LErr error | LInt int | LStr string

text \<open>One call of \<^verbatim>\<open>Log.Crit/Error/Warn/Info/Debug(msg, key, value, ...)\<close>.\<close>

type_synonym logrec = "lvl \<times> string \<times> (string \<times> logval) list"

section \<open>The world outside the handler\<close>

datatype fileop = OpCreate | OpWrite | OpClose | OpOpen | OpSeek | OpRemove

datatype slot = Primary | Secondary

text \<open>\<^verbatim>\<open>*http.Request\<close>: the header set is a Go map, a reference into \<open>heap\<close>; the body
  is a single-use stream, a reference into \<open>streams\<close>.\<close>

record request =
  Method :: string
  URL :: string
  RequestURI :: string
  Header :: nat
  Body :: nat

text \<open>\<^verbatim>\<open>*http.Response\<close>; its body is a single-use stream in \<open>streams\<close>.\<close>

record response =
  StatusCode :: int
  RespHeader :: header
  RespBody :: nat

text \<open>
  The state the handler acts on:
  \<^item> \<open>files\<close>: the file system, a content for every existing path;
  \<^item> \<open>faults\<close>: the file operations that fail with an I/O error, by operation and path;
  \<^item> \<open>handles\<close>: the open \<^verbatim>\<open>*os.File\<close> values, each a path and a file offset;
  \<^item> \<open>heap\<close>: the header maps of the request objects, by address;
  \<^item> \<open>streams\<close>: the unread bytes of every body stream;
  \<^item> \<open>logs\<close>: the records written through \<^verbatim>\<open>Log\<close>, oldest first;
  \<^item> \<open>calls\<close>: a trace of the requests that reached a backend, with the body sent;
  \<^item> \<open>replays\<close>: a trace of the request objects \<^verbatim>\<open>http.ReadRequest\<close> returned, with
    the bytes of their bodies.
  The two traces are observations only: no function of the source reads them.
\<close>

record world =
  files :: "string \<rightharpoonup> bytes"
  faults :: "(fileop \<times> string) set"
  handles :: "(string \<times> nat) list"
  heap :: "header list"
  streams :: "bytes list"
  logs :: "logrec list"
  calls :: "(slot \<times> request \<times> bytes) list"
  replays :: "(request \<times> bytes) list"

text \<open>A backend as the proxy sees it: from the method, target, header set and body bytes
  of the request sent to it, either the detail of a failed dispatch (network error,
  timeout) or the status, header set and body of its answer.\<close>

type_synonym backend = "string \<times> string \<times> header \<times> bytes \<Rightarrow> string + (int \<times> header \<times> bytes)"

definition Log :: "lvl \<Rightarrow> string \<Rightarrow> (string \<times> logval) list \<Rightarrow> world \<Rightarrow> world" where
  "Log l msg ctx s = s\<lparr>logs := logs s @ [(l, msg, ctx)]\<rparr>"

subsection \<open>Streams\<close>

definition new_stream :: "bytes \<Rightarrow> world \<Rightarrow> nat \<times> world" where
  "new_stream b s = (length (streams s), s\<lparr>streams := streams s @ [b]\<rparr>)"

text \<open>Reading a stream to its end returns the unread bytes and leaves none.\<close>

definition read_all :: "nat \<Rightarrow> world \<Rightarrow> bytes \<times> world" where
  "read_all i s =
     (if i < length (streams s)
      then (streams s ! i, s\<lparr>streams := (streams s)[i := []]\<rparr>)
      else ([], s))"

subsection \<open>Package \<^verbatim>\<open>os\<close>\<close>

text \<open>\<^verbatim>\<open>os.Create\<close>: creates or truncates the file; the handle starts at offset 0.\<close>

definition os_Create :: "string \<Rightarrow> world \<Rightarrow> (error + nat) \<times> world" where
  "os_Create p s =
     (if (OpCreate, p) \<in> faults s then (Inl (PathError ''open'' p), s)
      else (Inr (length (handles s)),
            s\<lparr>files := (files s)(p \<mapsto> []), handles := handles s @ [(p, 0)]\<rparr>))"

text \<open>\<^verbatim>\<open>os.Open\<close>: fails on a path that names no file.\<close>

definition os_Open :: "string \<Rightarrow> world \<Rightarrow> (error + nat) \<times> world" where
  "os_Open p s =
     (if (OpOpen, p) \<in> faults s \<or> files s p = None then (Inl (PathError ''open'' p), s)
      else (Inr (length (handles s)), s\<lparr>handles := handles s @ [(p, 0)]\<rparr>))"

text \<open>\<^verbatim>\<open>(*os.File).Write\<close>: the bytes go to the file at the handle's offset, which
  moves past them. A write through a handle whose path has been removed changes no
  file that has a name.\<close>

definition File_Write :: "nat \<Rightarrow> bytes \<Rightarrow> world \<Rightarrow> error option \<times> world" where
  "File_Write fh b s =
     (if fh < length (handles s) then
        (case handles s ! fh of (p, off) \<Rightarrow>
           if (OpWrite, p) \<in> faults s then (Some (PathError ''write'' p), s)
           else (case files s p of
                   None \<Rightarrow> (None, s)
                 | Some c \<Rightarrow>
                     (None, s\<lparr>files := (files s)(p \<mapsto> take off c @ b @ drop (off + length b) c),
                              handles := (handles s)[fh := (p, off + length b)]\<rparr>)))
      else (Some (PathError ''write'' []), s))"

definition File_Close :: "nat \<Rightarrow> world \<Rightarrow> error option \<times> world" where
  "File_Close fh s =
     (if fh < length (handles s) then
        (case handles s ! fh of (p, off) \<Rightarrow>
           if (OpClose, p) \<in> faults s then (Some (PathError ''close'' p), s) else (None, s))
      else (Some (PathError ''close'' []), s))"

text \<open>\<^verbatim>\<open>fh.Seek(0, 0)\<close>: back to the start of the file.\<close>

definition File_Seek0 :: "nat \<Rightarrow> world \<Rightarrow> error option \<times> world" where
  "File_Seek0 fh s =
     (if fh < length (handles s) then
        (case handles s ! fh of (p, off) \<Rightarrow>
           if (OpSeek, p) \<in> faults s then (Some (PathError ''seek'' p), s)
           else (None, s\<lparr>handles := (handles s)[fh := (p, 0)]\<rparr>))
      else (Some (PathError ''seek'' []), s))"

text \<open>\<^verbatim>\<open>(*os.File).Name\<close>: the path the file was opened with.\<close>

definition File_Name :: "nat \<Rightarrow> world \<Rightarrow> string" where
  "File_Name fh s = (if fh < length (handles s) then fst (handles s ! fh) else [])"

text \<open>Reading a handle to the end of its file.\<close>

definition File_ReadAll :: "nat \<Rightarrow> world \<Rightarrow> bytes \<times> world" where
  "File_ReadAll fh s =
     (if fh < length (handles s) then
        (case handles s ! fh of (p, off) \<Rightarrow>
           (case files s p of
              None \<Rightarrow> ([], s)
            | Some c \<Rightarrow> (drop off c, s\<lparr>handles := (handles s)[fh := (p, max off (length c))]\<rparr>)))
      else ([], s))"

text \<open>\<^verbatim>\<open>os.Remove\<close>.\<close>

definition os_Remove :: "string \<Rightarrow> world \<Rightarrow> error option \<times> world" where
  "os_Remove p s =
     (if (OpRemove, p) \<in> faults s \<or> files s p = None then (Some (PathError ''remove'' p), s)
      else (None, s\<lparr>files := (files s)(p := None)\<rparr>))"

subsection \<open>Packages \<^verbatim>\<open>fmt\<close>, \<^verbatim>\<open>strconv\<close> and \<^verbatim>\<open>path/filepath\<close>\<close>

text \<open>The decimal digits of a natural number, most significant first.\<close>

fun decimal :: "nat \<Rightarrow> string" where
  "decimal n = (if n < 10 then [''0123456789'' ! n]
                else decimal (n div 10) @ [''0123456789'' ! (n mod 10)])"

declare decimal.simps [simp del]

text \<open>\<^verbatim>\<open>fmt.Sprintf("%09d", id)\<close> on an unsigned value: zeros on the left up to a width
  of 9; a longer number is not cut.\<close>

definition Sprintf_09d :: "nat \<Rightarrow> string" where
  "Sprintf_09d n = replicate (9 - length (decimal n)) (CHR ''0'') @ decimal n"

text \<open>\<^verbatim>\<open>fmt.Sprintf("%d", n)\<close> and \<^verbatim>\<open>strconv.Itoa(n)\<close> on a Go \<^verbatim>\<open>int\<close>.\<close>

definition Sprintf_d :: "int \<Rightarrow> string" where
  "Sprintf_d n = (if n < 0 then CHR ''-'' # decimal (nat (- n)) else decimal (nat n))"

text \<open>The number a string of decimal digits stands for.\<close>

definition undecimal :: "string \<Rightarrow> nat" where
  "undecimal t = foldl (\<lambda>a c. 10 * a + (of_char c - 48)) 0 t"

subsection \<open>Package \<^verbatim>\<open>net/http\<close>\<close>

text \<open>
  What the standard library computes and the repository does not define is a parameter
  of the model:
  \<^item> \<open>filepath_Join\<close>: \<^verbatim>\<open>filepath.Join\<close>;
  \<^item> \<open>Request_wire\<close>: the bytes \<^verbatim>\<open>(*http.Request).Write\<close> emits for a method, target,
    header set and body;
  \<^item> \<open>Request_parse\<close>: what \<^verbatim>\<open>http.ReadRequest\<close> reads back, if the bytes are a request;
  \<^item> \<open>Response_wire\<close>, \<open>Response_parse\<close>: the same for \<^verbatim>\<open>(*http.Response).Write\<close> and
    \<^verbatim>\<open>http.ReadResponse\<close>;
  \<^item> \<open>StatusText\<close>: \<^verbatim>\<open>http.StatusText\<close>;
  \<^item> \<open>proxyErrStatus\<close>: the status \<^verbatim>\<open>httputil.ReverseProxy\<close> answers with when its
    round trip to the backend fails.
\<close>

record httplib =
  filepath_Join :: "string \<Rightarrow> string \<Rightarrow> string"
  Request_wire :: "string \<Rightarrow> string \<Rightarrow> header \<Rightarrow> bytes \<Rightarrow> bytes"
  Request_parse :: "bytes \<Rightarrow> (string \<times> string \<times> header \<times> bytes) option"
  Response_wire :: "int \<Rightarrow> header \<Rightarrow> bytes \<Rightarrow> bytes"
  Response_parse :: "bytes \<Rightarrow> (int \<times> header \<times> bytes) option"
  StatusText :: "int \<Rightarrow> string"
  proxyErrStatus :: int

definition StatusInternalServerError :: int where
  "StatusInternalServerError = 500"

definition StatusBadGateway :: int where
  "StatusBadGateway = 502"

definition StatusGatewayTimeout :: int where
  "StatusGatewayTimeout = 504"

definition StatusOK :: int where
  "StatusOK = 200"

text \<open>The header map a request object points to.\<close>

definition header_of :: "request \<Rightarrow> world \<Rightarrow> header" where
  "header_of r s = (if Header r < length (heap s) then heap s ! Header r else [])"

text \<open>Mutation of the header set of a request object, \<^verbatim>\<open>r.Header[k] = v\<close>: it goes
  through the map reference to the heap.\<close>

definition Header_Set :: "request \<Rightarrow> string \<Rightarrow> string list \<Rightarrow> world \<Rightarrow> world" where
  "Header_Set r k v s =
     (if Header r < length (heap s)
      then s\<lparr>heap := (heap s)[Header r := AList.update k v (heap s ! Header r)]\<rparr>
      else s)"

text \<open>\<^verbatim>\<open>r.Write(fh)\<close>: drains the body of \<open>r\<close> and writes the request in wire format.\<close>

definition Request_Write :: "httplib \<Rightarrow> request \<Rightarrow> nat \<Rightarrow> world \<Rightarrow> error option \<times> world" where
  "Request_Write L r fh s =
     (case read_all (Body r) s of (b, s1) \<Rightarrow>
        File_Write fh (Request_wire L (Method r) (URL r) (header_of r s1) b) s1)"

text \<open>\<^verbatim>\<open>http.ReadRequest(bufio.NewReader(fh))\<close>: reads the file from the handle's offset
  on and parses it into a new request object with a header map and a body stream of its
  own.\<close>

definition http_ReadRequest :: "httplib \<Rightarrow> nat \<Rightarrow> world \<Rightarrow> (error + request) \<times> world" where
  "http_ReadRequest L fh s =
     (case File_ReadAll fh s of (d, s1) \<Rightarrow>
        (case Request_parse L d of
           None \<Rightarrow> (Inl ProtocolError, s1)
         | Some (m, u, h, b) \<Rightarrow>
             (case new_stream b (s1\<lparr>heap := heap s1 @ [h]\<rparr>) of (bi, s2) \<Rightarrow>
                (let rq = \<lparr>Method = m, URL = u, RequestURI = u, Header = length (heap s1), Body = bi\<rparr>
                 in (Inr rq, s2\<lparr>replays := replays s2 @ [(rq, b)]\<rparr>)))))"

text \<open>\<^verbatim>\<open>resp.Write(fh)\<close>: drains the body of \<open>resp\<close> and writes the response in wire
  format.\<close>

definition Response_Write :: "httplib \<Rightarrow> response \<Rightarrow> nat \<Rightarrow> world \<Rightarrow> error option \<times> world" where
  "Response_Write L resp fh s =
     (case read_all (RespBody resp) s of (b, s1) \<Rightarrow>
        File_Write fh (Response_wire L (StatusCode resp) (RespHeader resp) b) s1)"

definition http_ReadResponse :: "httplib \<Rightarrow> nat \<Rightarrow> world \<Rightarrow> (error + response) \<times> world" where
  "http_ReadResponse L fh s =
     (case File_ReadAll fh s of (d, s1) \<Rightarrow>
        (case Response_parse L d of
           None \<Rightarrow> (Inl ProtocolError, s1)
         | Some (sc, h, b) \<Rightarrow>
             (case new_stream b s1 of (bi, s2) \<Rightarrow>
                (Inr \<lparr>StatusCode = sc, RespHeader = h, RespBody = bi\<rparr>, s2))))"

text \<open>\<^verbatim>\<open>(*http.Client).Do\<close>: a request whose \<^verbatim>\<open>RequestURI\<close> is set is refused before
  anything is sent; otherwise the body is drained, the request reaches the backend, and
  the answer comes back with a fresh body stream.\<close>

definition Client_Do :: "slot \<Rightarrow> backend \<Rightarrow> request \<Rightarrow> world \<Rightarrow> (error + response) \<times> world" where
  "Client_Do tag be r s =
     (if RequestURI r \<noteq> [] then
        (Inl (NetError ''http: Request.RequestURI can not be set in client requests.''), s)
      else
        (case read_all (Body r) s of (b, s1) \<Rightarrow>
           (let s2 = s1\<lparr>calls := calls s1 @ [(tag, r, b)]\<rparr> in
            (case be (Method r, URL r, header_of r s2, b) of
               Inl m \<Rightarrow> (Inl (NetError m), s2)
             | Inr (sc, h, body) \<Rightarrow>
                 (case new_stream body s2 of (bi, s3) \<Rightarrow>
                    (Inr \<lparr>StatusCode = sc, RespHeader = h, RespBody = bi\<rparr>, s3))))))"

text \<open>The caller-facing \<^verbatim>\<open>http.ResponseWriter\<close>: the header set, the status written (0
  while none has been) and the body bytes written so far.\<close>

record ResponseWriter =
  hdr_w :: header
  status_w :: int
  body_w :: bytes

text \<open>\<^verbatim>\<open>w.WriteHeader(code)\<close>: the first call fixes the status.\<close>

definition W_WriteHeader :: "int \<Rightarrow> ResponseWriter \<Rightarrow> ResponseWriter" where
  "W_WriteHeader code w = (if status_w w = 0 then w\<lparr>status_w := code\<rparr> else w)"

text \<open>\<^verbatim>\<open>w.Write(p)\<close>: writes the status 200 first if none has been written.\<close>

definition W_Write :: "bytes \<Rightarrow> ResponseWriter \<Rightarrow> ResponseWriter" where
  "W_Write p w = (let w' = W_WriteHeader StatusOK w in w'\<lparr>body_w := body_w w' @ p\<rparr>)"

text \<open>\<^verbatim>\<open>http.Error(w, msg, code)\<close>: plain-text content type, the status, the message
  and a newline.\<close>

definition http_Error :: "ResponseWriter \<Rightarrow> string \<Rightarrow> int \<Rightarrow> ResponseWriter" where
  "http_Error w msg code =
     W_Write (msg @ [CHR 0x0A])
       (W_WriteHeader code
          (w\<lparr>hdr_w := AList.update ''X-Content-Type-Options'' [''nosniff'']
                       (AList.update ''Content-Type'' [''text/plain; charset=utf-8''] (hdr_w w))\<rparr>))"

section \<open>SequenceAllocator: \<^verbatim>\<open>dualServer.nextID\<close>\<close>

text \<open>\<^verbatim>\<open>type dualServer struct { primary, secondary; dir string; id uint32 }\<close>.
  The fields \<^verbatim>\<open>primary\<close> and \<^verbatim>\<open>secondary\<close> (an \<^verbatim>\<open>*http.Client\<close> in
  \<^verbatim>\<open>main.go\<close>, a reverse proxy in the other variant) are represented by the behaviour of
  the backend behind them. The field \<^verbatim>\<open>id\<close> is \<open>id_ds\<close> here; it is zero in a
  server built by \<^verbatim>\<open>newDualServer\<close>.\<close>

record dualServer =
  primary :: backend
  secondary :: backend
  dir :: string
  id_ds :: "32 word"

definition newDualServer :: "string \<Rightarrow> backend \<Rightarrow> backend \<Rightarrow> dualServer" where
  "newDualServer d pri sec = \<lparr>primary = pri, secondary = sec, dir = d, id_ds = 0\<rparr>"

text \<open>\<^verbatim>\<open>atomic.AddUint32(&ds.id, 1)\<close>: adds one, wrapping at \<open>2^32\<close>, and returns the
  new value.\<close>

definition nextID :: "dualServer \<Rightarrow> 32 word \<times> dualServer" where
  "nextID ds = (id_ds ds + 1, ds\<lparr>id_ds := id_ds ds + 1\<rparr>)"

text \<open>\<open>n\<close> successive calls of \<^verbatim>\<open>nextID\<close>, with the identifiers in the order returned.\<close>

fun nextIDs :: "nat \<Rightarrow> dualServer \<Rightarrow> 32 word list \<times> dualServer" where
  "nextIDs 0 ds = ([], ds)"
| "nextIDs (Suc n) ds =
     (case nextID ds of (i, ds') \<Rightarrow>
        (case nextIDs n ds' of (is, ds'') \<Rightarrow> (i # is, ds'')))"

section \<open>\<^verbatim>\<open>main.go\<close>: capture, replay and the dual dispatch through two clients\<close>

text \<open>The closure \<^verbatim>\<open>saveRequest\<close> returns, over the file name \<open>nm\<close>: opens the file
  again and parses it. (The body of the request it returns keeps its reader; closing it
  also closes the file.)\<close>

definition readReq :: "httplib \<Rightarrow> string \<Rightarrow> world \<Rightarrow> (error + request) \<times> world" where
  "readReq L nm s =
     (case os_Open nm s of
        (Inl err, s1) \<Rightarrow> (Inl err, s1)
      | (Inr fh, s1) \<Rightarrow> http_ReadRequest L fh s1)"

definition saveRequest ::
  "httplib \<Rightarrow> string \<Rightarrow> request \<Rightarrow> world \<Rightarrow> (error + (world \<Rightarrow> (error + request) \<times> world)) \<times> world" where
  "saveRequest L dest r s =
     (case os_Create dest s of
        (Inl err, s1) \<Rightarrow> (Inl err, s1)
      | (Inr fh, s1) \<Rightarrow>
          (case Request_Write L r fh s1 of
             (Some err, s2) \<Rightarrow> (Inl err, snd (File_Close fh s2))
           | (None, s2) \<Rightarrow>
               (case File_Close fh s2 of
                  (Some err, s3) \<Rightarrow> (Inl err, s3)
                | (None, s3) \<Rightarrow> (Inr (readReq L (File_Name fh s3)), s3))))"

text \<open>\<^verbatim>\<open>saveResponse\<close> returns a response and an error; both callers use the response only
  when the error is nil, so the result is the error or the response.\<close>

definition saveResponse :: "httplib \<Rightarrow> string \<Rightarrow> response \<Rightarrow> world \<Rightarrow> (error + response) \<times> world" where
  "saveResponse L dest resp s =
     (case os_Create dest s of
        (Inl err, s1) \<Rightarrow> (Inl err, s1)
      | (Inr fh, s1) \<Rightarrow>
          (case Response_Write L resp fh s1 of
             (Some err, s2) \<Rightarrow> (Inl err, snd (File_Close fh s2))
           | (None, s2) \<Rightarrow>
               (case File_Seek0 fh s2 of
                  (Some err, s3) \<Rightarrow> (Inl err, snd (File_Close fh s3))
                | (None, s3) \<Rightarrow>
                    (case http_ReadResponse L fh s3 of
                       (Inl err, s4) \<Rightarrow> (Inl err, snd (File_Close fh s4))
                     | (Inr resp', s4) \<Rightarrow> (Inr resp', s4)))))"

text \<open>The second closure of \<^verbatim>\<open>saveRequestResponse\<close>, over \<open>base\<close>. Its panic on
  \<open>n \<le> 0\<close> is the error value \<open>Panic\<close>; both call sites pass 1 or 2.\<close>

definition saveResp :: "httplib \<Rightarrow> string \<Rightarrow> response \<Rightarrow> int \<Rightarrow> world \<Rightarrow> (error + response) \<times> world" where
  "saveResp L base resp n s =
     (if n \<le> 0 then (Inl (Panic ''n must be bigger than zero!''), s)
      else saveResponse L (base @ ''.'' @ Sprintf_d n) resp s)"

text \<open>\<^verbatim>\<open>filepath.Join(ds.dir, fmt.Sprintf("%09d", id))\<close>.\<close>

definition base_path :: "httplib \<Rightarrow> dualServer \<Rightarrow> 32 word \<Rightarrow> string" where
  "base_path L ds i = filepath_Join L (dir ds) (Sprintf_09d (unat i))"

definition saveRequestResponse ::
  "httplib \<Rightarrow> dualServer \<Rightarrow> request \<Rightarrow> world \<Rightarrow>
   dualServer \<times>
   (error + (world \<Rightarrow> (error + request) \<times> world) \<times>
            (response \<Rightarrow> int \<Rightarrow> world \<Rightarrow> (error + response) \<times> world)) \<times> world" where
  "saveRequestResponse L ds r s =
     (case nextID ds of (i, ds1) \<Rightarrow>
        (let base = base_path L ds1 i in
         (case saveRequest L (base @ ''.0'') r s of
            (Inl err, s1) \<Rightarrow> (ds1, Inl err, s1)
          | (Inr saveReq, s1) \<Rightarrow> (ds1, Inr (saveReq, saveResp L base), s1))))"

text \<open>The body of the goroutine \<^verbatim>\<open>go func(sc int) { ... }(resp1.StatusCode)\<close>. It leaves
  \<^verbatim>\<open>RequestURI\<close> as \<^verbatim>\<open>http.ReadRequest\<close> set it.\<close>

definition secondary_go ::
  "dualServer \<Rightarrow> (world \<Rightarrow> (error + request) \<times> world) \<Rightarrow>
   (response \<Rightarrow> int \<Rightarrow> world \<Rightarrow> (error + response) \<times> world) \<Rightarrow> int \<Rightarrow> world \<Rightarrow> world" where
  "secondary_go ds rdReq svResp sc s =
     (case rdReq s of
        (Inl err, s1) \<Rightarrow> Log LvlError ''error reading request (2.)'' [(''error'', LErr err)] s1
      | (Inr r, s1) \<Rightarrow>
          (case Client_Do Secondary (secondary ds) r s1 of
             (Inl err, s2) \<Rightarrow> Log LvlError ''call secondary'' [(''error'', LErr err)] s2
           | (Inr resp2, s2) \<Rightarrow>
               (case svResp resp2 2 s2 of
                  (Inl err, s3) \<Rightarrow> Log LvlError ''save secondary response'' [(''error'', LErr err)] s3
                | (Inr resp, s3) \<Rightarrow>
                    (if StatusCode resp2 \<noteq> sc
                     then Log LvlWarn ''status code mismatch''
                            [(''primary'', LInt sc), (''secondary'', LInt (StatusCode resp2))] s3
                     else s3))))"

text \<open>\<^verbatim>\<open>for k, v := range resp.Header { h[k] = v }\<close>.\<close>

definition copy_header :: "header \<Rightarrow> header \<Rightarrow> header" where
  "copy_header src h = fold (\<lambda>(k, v). AList.update k v) src h"

text \<open>The answer to the caller: header set, status, then \<^verbatim>\<open>io.Copy(w, resp.Body)\<close>.\<close>

definition answer :: "response \<Rightarrow> ResponseWriter \<Rightarrow> world \<Rightarrow> ResponseWriter \<times> world" where
  "answer resp w s =
     (let w1 = W_WriteHeader (StatusCode resp) (w\<lparr>hdr_w := copy_header (RespHeader resp) (hdr_w w)\<rparr>)
      in (case read_all (RespBody resp) s of (b, s1) \<Rightarrow>
            ((if b = [] then w1 else W_Write b w1), s1)))"

text \<open>\<^verbatim>\<open>(*dualServer).ServeHTTP\<close> of \<^verbatim>\<open>main.go\<close>. The result is the caller's writer, the
  server, the world, and the goroutine the handler started, if it started one.\<close>

definition ServeHTTP ::
  "httplib \<Rightarrow> dualServer \<Rightarrow> ResponseWriter \<Rightarrow> request \<Rightarrow> world \<Rightarrow>
   ResponseWriter \<times> dualServer \<times> world \<times> (world \<Rightarrow> world) option" where
  "ServeHTTP L ds w r s =
     (case saveRequestResponse L ds r s of
        (ds1, Inl err, s1) \<Rightarrow>
          (http_Error w (''error saving request: '' @ Error_str err) StatusInternalServerError,
           ds1, Log LvlCrit ''error saving request'' [(''error'', LErr err)] s1, None)
      | (ds1, Inr (rdReq, svResp), s1) \<Rightarrow>
          (case rdReq s1 of
             (Inl err, s2) \<Rightarrow>
               (http_Error w (''error reading request: '' @ Error_str err) StatusInternalServerError,
                ds1, Log LvlError ''error reading request'' [(''error'', LErr err)] s2, None)
           | (Inr r1, s2) \<Rightarrow>
               (case Client_Do Primary (primary ds1) (r1\<lparr>RequestURI := []\<rparr>) s2 of
                  (Inl err, s3) \<Rightarrow>
                    (http_Error w (''call primary: '' @ Error_str err) StatusInternalServerError,
                     ds1, Log LvlError ''call primary'' [(''error'', LErr err)] s3, None)
                | (Inr resp1, s3) \<Rightarrow>
                    (let task = secondary_go ds1 rdReq svResp (StatusCode resp1) in
                     (case svResp resp1 1 s3 of
                        (Inl err, s4) \<Rightarrow>
                          (case answer resp1 w (Log LvlError ''save response1'' [(''error'', LErr err)] s4) of
                             (w', s5) \<Rightarrow> (w', ds1, s5, Some task))
                      | (Inr resp, s4) \<Rightarrow>
                          (case answer resp w s4 of
                             (w', s5) \<Rightarrow> (w', ds1, s5, Some task)))))))"

text \<open>One exchange with the goroutine run to its end after the handler has returned.\<close>

definition exchange ::
  "httplib \<Rightarrow> dualServer \<Rightarrow> ResponseWriter \<Rightarrow> request \<Rightarrow> world \<Rightarrow>
   ResponseWriter \<times> dualServer \<times> world" where
  "exchange L ds w r s =
     (case ServeHTTP L ds w r s of
        (w', ds', s', None) \<Rightarrow> (w', ds', s')
      | (w', ds', s', Some task) \<Rightarrow> (w', ds', task s'))"

section \<open>The reverse-proxy variant (\<^verbatim>\<open>unnamed/part_000\<close>)\<close>

text \<open>\<^verbatim>\<open>type respWriter struct { io.WriteCloser; w http.ResponseWriter; h http.Header;
  status int }\<close>: the embedded \<^verbatim>\<open>WriteCloser\<close> is a file handle; \<open>w_rw\<close> is the
  caller-facing writer or nil; \<open>h_rw\<close> is the header map or nil.\<close>

record respWriter =
  WriteCloser :: nat
  w_rw :: "ResponseWriter option"
  h_rw :: "header option"
  status_rw :: int

text \<open>\<^verbatim>\<open>(*respWriter).Header\<close>: the caller's header map if there is a caller-facing
  writer, else the writer's own map, made on first use.\<close>

definition respWriter_Header :: "respWriter \<Rightarrow> header \<times> respWriter" where
  "respWriter_Header rw =
     (case w_rw rw of
        Some cw \<Rightarrow> (hdr_w cw, rw)
      | None \<Rightarrow>
          (case h_rw rw of
             None \<Rightarrow> ([], rw\<lparr>h_rw := Some []\<rparr>)
           | Some h \<Rightarrow> (h, rw)))"

text \<open>A change made through the map \<^verbatim>\<open>Header()\<close> returned.\<close>

definition respWriter_Header_upd :: "(header \<Rightarrow> header) \<Rightarrow> respWriter \<Rightarrow> respWriter" where
  "respWriter_Header_upd f rw =
     (case w_rw rw of
        Some cw \<Rightarrow> rw\<lparr>w_rw := Some (cw\<lparr>hdr_w := f (hdr_w cw)\<rparr>)\<rparr>
      | None \<Rightarrow>
          (case h_rw rw of
             None \<Rightarrow> rw\<lparr>h_rw := Some (f [])\<rparr>
           | Some h \<Rightarrow> rw\<lparr>h_rw := Some (f h)\<rparr>))"

definition CRLF :: string where
  "CRLF = [CHR 0x0D, CHR 0x0A]"

text \<open>\<^verbatim>\<open>(*respWriter).WriteHeader\<close>: records the status, passes it to the caller-facing
  writer if there is one, and writes the status line and the header lines to the file;
  the results of the file writes are dropped. The order of the header lines is the
  order of the association list.\<close>

definition respWriter_WriteHeader :: "httplib \<Rightarrow> int \<Rightarrow> respWriter \<Rightarrow> world \<Rightarrow> respWriter \<times> world" where
  "respWriter_WriteHeader L status rw s =
     (let rw1 = rw\<lparr>status_rw := status\<rparr>;
          rw2 = (case w_rw rw1 of
                   Some cw \<Rightarrow> rw1\<lparr>w_rw := Some (W_WriteHeader status cw)\<rparr>
                 | None \<Rightarrow> rw1);
          s1 = snd (File_Write (WriteCloser rw2)
                      (''HTTP/1.1 '' @ Sprintf_d status @ '' '' @ StatusText L status @ CRLF) s)
      in (case respWriter_Header rw2 of (h, rw3) \<Rightarrow>
            (let s2 = fold (\<lambda>(k, vv) t.
                              fold (\<lambda>v u. snd (File_Write (WriteCloser rw3) (k @ '': '' @ v @ CRLF) u)) vv t)
                           h s1
             in (rw3, snd (File_Write (WriteCloser rw3) CRLF s2)))))"

text \<open>\<^verbatim>\<open>(respWriter).Write\<close> has a value receiver: the status and the header map that
  \<^verbatim>\<open>WriteHeader\<close> sets on the copy are lost, what it does to the caller-facing writer and
  to the file stays. With a caller-facing writer the result of the file write is
  dropped.\<close>

definition respWriter_Write ::
  "httplib \<Rightarrow> bytes \<Rightarrow> respWriter \<Rightarrow> world \<Rightarrow> error option \<times> respWriter \<times> world" where
  "respWriter_Write L p rw s =
     (case (if status_rw rw = 0 then respWriter_WriteHeader L StatusOK rw s else (rw, s)) of
        (rwc, s1) \<Rightarrow>
          (case w_rw rwc of
             Some cw \<Rightarrow>
               (None, rw\<lparr>w_rw := Some (W_Write p cw)\<rparr>, snd (File_Write (WriteCloser rw) p s1))
           | None \<Rightarrow>
               (case File_Write (WriteCloser rw) p s1 of (e, s2) \<Rightarrow> (e, rw, s2))))"

text \<open>\<^verbatim>\<open>(*httputil.ReverseProxy).ServeHTTP\<close>: drains the request body and sends the
  request to the backend. When the round trip fails it logs through its \<^verbatim>\<open>ErrorLog\<close>
  and writes the error status; otherwise it adds the backend's header lines to the
  writer's header map, writes its status and copies its body.\<close>

definition Header_Add :: "string \<Rightarrow> string list \<Rightarrow> header \<Rightarrow> header" where
  "Header_Add k vv h =
     AList.update k ((case map_of h k of None \<Rightarrow> [] | Some old \<Rightarrow> old) @ vv) h"

definition ReverseProxy_ServeHTTP ::
  "httplib \<Rightarrow> slot \<Rightarrow> backend \<Rightarrow> respWriter \<Rightarrow> request \<Rightarrow> world \<Rightarrow> respWriter \<times> world" where
  "ReverseProxy_ServeHTTP L tag be rw r s =
     (case read_all (Body r) s of (b, s1) \<Rightarrow>
        (let s2 = s1\<lparr>calls := calls s1 @ [(tag, r, b)]\<rparr> in
         (case be (Method r, URL r, header_of r s2, b) of
            Inl m \<Rightarrow>
              respWriter_WriteHeader L (proxyErrStatus L) rw
                (Log LvlError ''http: proxy error'' [(''error'', LStr m)] s2)
          | Inr (sc, h, body) \<Rightarrow>
              (case respWriter_WriteHeader L sc
                      (respWriter_Header_upd (fold (\<lambda>(k, vv). Header_Add k vv) h) rw) s2 of
                 (rw1, s3) \<Rightarrow>
                   (if body = [] then (rw1, s3)
                    else (case respWriter_Write L body rw1 s3 of (e, rw2, s4) \<Rightarrow> (rw2, s4)))))))"

definition writeRequest :: "httplib \<Rightarrow> string \<Rightarrow> request \<Rightarrow> world \<Rightarrow> error option \<times> world" where
  "writeRequest L dest r s =
     (case os_Create dest s of
        (Inl err, s1) \<Rightarrow> (Some err, s1)
      | (Inr fh, s1) \<Rightarrow>
          (case Request_Write L r fh s1 of
             (Some err, s2) \<Rightarrow> (Some err, snd (File_Close fh s2))
           | (None, s2) \<Rightarrow> File_Close fh s2))"

text \<open>The loop \<^verbatim>\<open>for i := range requests\<close> of \<^verbatim>\<open>saveRequestResponse\<close>, over the indices
  still to do. The slices it returns hold the entries filled in so far; on an error
  the entries after them are nil and are left out.\<close>

fun replay_loop ::
  "httplib \<Rightarrow> string \<Rightarrow> string \<Rightarrow> nat list \<Rightarrow> request list \<Rightarrow> respWriter list \<Rightarrow> world \<Rightarrow>
   (request list \<times> respWriter list \<times> error option) \<times> world" where
  "replay_loop L base reqFn [] rqs rws s = ((rqs, rws, None), s)"
| "replay_loop L base reqFn (i # is) rqs rws s =
     (case os_Open reqFn s of
        (Inl err, s1) \<Rightarrow> ((rqs, rws, Some err), s1)
      | (Inr fh, s1) \<Rightarrow>
          (case http_ReadRequest L fh s1 of
             (Inl err, s2) \<Rightarrow> ((rqs, rws, Some err), s2)
           | (Inr rq, s2) \<Rightarrow>
               (case os_Create (base @ ''.'' @ Sprintf_d (int i + 1)) s2 of
                  (Inl err, s3) \<Rightarrow> ((rqs @ [rq], rws, Some err), s3)
                | (Inr wc, s3) \<Rightarrow>
                    replay_loop L base reqFn is (rqs @ [rq])
                      (rws @ [\<lparr>WriteCloser = wc, w_rw = None, h_rw = None, status_rw = 0\<rparr>]) s3)))"

definition saveRequestResponse_rp ::
  "httplib \<Rightarrow> dualServer \<Rightarrow> request \<Rightarrow> nat \<Rightarrow> world \<Rightarrow>
   dualServer \<times> (request list \<times> respWriter list \<times> error option) \<times> world" where
  "saveRequestResponse_rp L ds r n s =
     (case nextID ds of (i, ds1) \<Rightarrow>
        (let base = base_path L ds1 i; reqFn = base @ ''.0'' in
         (case writeRequest L reqFn r s of
            (Some err, s1) \<Rightarrow> (ds1, ([], [], Some err), s1)
          | (None, s1) \<Rightarrow>
              (case replay_loop L base reqFn [0..<n] [] [] s1 of (res, s2) \<Rightarrow> (ds1, res, s2)))))"

text \<open>The body of the goroutine \<^verbatim>\<open>go func(w *respWriter, r *http.Request, sc int)\<close>, with
  its deferred close at the end. (The file name ends in the slot digit, so
  \<^verbatim>\<open>base[:len(base)-1]\<close> is in range.)\<close>

definition secondary_go_rp ::
  "httplib \<Rightarrow> dualServer \<Rightarrow> respWriter \<Rightarrow> request \<Rightarrow> int \<Rightarrow> world \<Rightarrow> world" where
  "secondary_go_rp L ds w r sc s =
     (case ReverseProxy_ServeHTTP L Secondary (secondary ds) w r s of
        (w', s1) \<Rightarrow>
          (let s2 = (if status_rw w' \<noteq> sc
                     then Log LvlError ''CODE mismatch''
                            [(''wanted'', LInt sc), (''got'', LInt (status_rw w'))] s1
                     else (let base = File_Name (WriteCloser w') s1;
                               base' = take (length base - 1) base
                           in fold (\<lambda>i t. snd (os_Remove (base' @ Sprintf_d (int i)) t)) [0..<3] s1))
           in snd (File_Close (WriteCloser w') s2)))"

text \<open>\<^verbatim>\<open>(*dualServer).ServeHTTP\<close> of the variant. With a nil error both slices have two
  entries; the last case stands for the index panic otherwise.\<close>

definition ServeHTTP_rp ::
  "httplib \<Rightarrow> dualServer \<Rightarrow> ResponseWriter \<Rightarrow> request \<Rightarrow> world \<Rightarrow>
   ResponseWriter \<times> dualServer \<times> world \<times> (world \<Rightarrow> world) option" where
  "ServeHTTP_rp L ds w r s =
     (case saveRequestResponse_rp L ds r 2 s of
        (ds1, (requests, respWriters, Some err), s1) \<Rightarrow>
          (http_Error w (''error saving request: '' @ Error_str err) StatusInternalServerError,
           ds1, Log LvlCrit ''error saving request'' [(''error'', LErr err)] s1, None)
      | (ds1, (requests, respWriters, None), s1) \<Rightarrow>
          (case (requests, respWriters) of
             ([r0, r1], [w0, w1]) \<Rightarrow>
               (case ReverseProxy_ServeHTTP L Primary (primary ds1) (w0\<lparr>w_rw := Some w\<rparr>) r0
                       (Log LvlDebug ''request 1'' [(''req'', LStr (Method r0 @ '' '' @ URL r0))] s1) of
                  (w0', s2) \<Rightarrow>
                    (let task = secondary_go_rp L ds1 w1 r1 (status_rw w0')
                     in ((case w_rw w0' of Some cw \<Rightarrow> cw | None \<Rightarrow> w), ds1,
                         snd (File_Close (WriteCloser w0') s2), Some task)))
           | _ \<Rightarrow> (w, ds1, s1, None)))"

definition exchange_rp ::
  "httplib \<Rightarrow> dualServer \<Rightarrow> ResponseWriter \<Rightarrow> request \<Rightarrow> world \<Rightarrow>
   ResponseWriter \<times> dualServer \<times> world" where
  "exchange_rp L ds w r s =
     (case ServeHTTP_rp L ds w r s of
        (w', ds', s', None) \<Rightarrow> (w', ds', s')
      | (w', ds', s', Some task) \<Rightarrow> (w', ds', task s'))"

section \<open>DrainingListener: \<^verbatim>\<open>stoppableListener\<close> and \<^verbatim>\<open>stoppableConn\<close> (\<^verbatim>\<open>httpdump.go\<close>)\<close>

text \<open>The embedded \<^verbatim>\<open>net.Listener\<close> with the connections behind it: whether it has
  been closed, the connections waiting to be accepted, and the connections closed.\<close>

record netListener =
  lclosed :: bool
  backlog :: "nat list"
  closed_conns :: "nat set"

text \<open>What a call does: it returns, it panics, or it blocks.\<close>

datatype 'a result = Returns 'a | Panics string | Blocks

text \<open>\<^verbatim>\<open>net.Listener.Accept\<close>: an error on a closed listener, else the next waiting
  connection; it blocks while none waits.\<close>

definition Listener_Accept :: "netListener \<Rightarrow> (error + nat) result \<times> netListener" where
  "Listener_Accept l =
     (if lclosed l then (Returns (Inl (NetError ''use of closed network connection'')), l)
      else (case backlog l of
              [] \<Rightarrow> (Blocks, l)
            | c # cs \<Rightarrow> (Returns (Inr c), l\<lparr>backlog := cs\<rparr>)))"

text \<open>\<^verbatim>\<open>net.Conn.Close\<close>: an error on a connection closed before.\<close>

definition Conn_Close :: "nat \<Rightarrow> netListener \<Rightarrow> error option \<times> netListener" where
  "Conn_Close c l =
     (if c \<in> closed_conns l then (Some (NetError ''use of closed network connection''), l)
      else (None, l\<lparr>closed_conns := insert c (closed_conns l)\<rparr>))"

text \<open>\<^verbatim>\<open>(*sync.WaitGroup).Add\<close>: adds \<open>delta\<close> to the counter and panics if the counter
  is negative then. \<^verbatim>\<open>Done\<close> is \<^verbatim>\<open>Add(-1)\<close>.\<close>

definition WaitGroup_Add :: "int \<Rightarrow> int \<Rightarrow> string option \<times> int" where
  "WaitGroup_Add delta v =
     (if v + delta < 0 then (Some ''sync: negative WaitGroup counter'', v + delta)
      else (None, v + delta))"

definition WaitGroup_Done :: "int \<Rightarrow> string option \<times> int" where
  "WaitGroup_Done v = WaitGroup_Add (- 1) v"

text \<open>\<^verbatim>\<open>type stoppableListener struct { net.Listener; sync.WaitGroup }\<close>, the wait group
  by its counter.\<close>

record stoppableListener =
  Listener :: netListener
  WaitGroup :: int

text \<open>\<^verbatim>\<open>type stoppableConn struct { net.Conn; wg *sync.WaitGroup }\<close>: \<open>wg\<close> points to the
  wait group of the listener, which the operations below take as their state.\<close>

record stoppableConn =
  Conn :: nat

definition newStoppableListener :: "netListener \<Rightarrow> stoppableListener" where
  "newStoppableListener l = \<lparr>Listener = l, WaitGroup = 0\<rparr>"

definition Accept :: "stoppableListener \<Rightarrow> (error + stoppableConn) result \<times> stoppableListener" where
  "Accept sl =
     (case Listener_Accept (Listener sl) of
        (Blocks, l) \<Rightarrow> (Blocks, sl\<lparr>Listener := l\<rparr>)
      | (Panics m, l) \<Rightarrow> (Panics m, sl\<lparr>Listener := l\<rparr>)
      | (Returns (Inl err), l) \<Rightarrow> (Returns (Inl err), sl\<lparr>Listener := l\<rparr>)
      | (Returns (Inr c), l) \<Rightarrow>
          (case WaitGroup_Add 1 (WaitGroup sl) of
             (Some m, v) \<Rightarrow> (Panics m, \<lparr>Listener = l, WaitGroup = v\<rparr>)
           | (None, v) \<Rightarrow> (Returns (Inr \<lparr>Conn = c\<rparr>), \<lparr>Listener = l, WaitGroup = v\<rparr>)))"

text \<open>\<^verbatim>\<open>(*stoppableConn).Close\<close>: \<^verbatim>\<open>sc.wg.Done()\<close>, then the close of the connection.\<close>

definition Close :: "stoppableConn \<Rightarrow> stoppableListener \<Rightarrow> (error option) result \<times> stoppableListener" where
  "Close sc sl =
     (case WaitGroup_Done (WaitGroup sl) of
        (Some m, v) \<Rightarrow> (Panics m, sl\<lparr>WaitGroup := v\<rparr>)
      | (None, v) \<Rightarrow>
          (case Conn_Close (Conn sc) (Listener sl) of
             (e, l) \<Rightarrow> (Returns e, \<lparr>Listener = l, WaitGroup = v\<rparr>)))"

text \<open>\<open>k\<close> calls of \<^verbatim>\<open>Close\<close> on one connection, one after the other; a panic ends
  them.\<close>

fun Closes :: "nat \<Rightarrow> stoppableConn \<Rightarrow> stoppableListener \<Rightarrow> (error option) result \<times> stoppableListener" where
  "Closes 0 sc sl = (Returns None, sl)"
| "Closes (Suc k) sc sl =
     (case Close sc sl of
        (Returns e, sl') \<Rightarrow> (if k = 0 then (Returns e, sl') else Closes k sc sl')
      | (Panics m, sl') \<Rightarrow> (Panics m, sl')
      | (Blocks, sl') \<Rightarrow> (Blocks, sl'))"

section \<open>A small instance for concrete runs\<close>

text \<open>A wire format for messages without header lines: request line or status line,
  an empty line, the body.\<close>

definition wire0 :: "string \<Rightarrow> string \<Rightarrow> header \<Rightarrow> bytes \<Rightarrow> bytes" where
  "wire0 m u h b = m @ '' '' @ u @ '' HTTP/1.1'' @ CRLF @ CRLF @ b"

definition parse0 :: "bytes \<Rightarrow> (string \<times> string \<times> header \<times> bytes) option" where
  "parse0 d =
     (let m = takeWhile (\<lambda>c. c \<noteq> CHR '' '') d;
          d1 = drop (Suc (length m)) d;
          u = takeWhile (\<lambda>c. c \<noteq> CHR '' '') d1;
          d2 = drop (Suc (length u)) d1
      in if take 12 d2 = ''HTTP/1.1'' @ CRLF @ CRLF then Some (m, u, [], drop 12 d2) else None)"

definition rwire0 :: "int \<Rightarrow> header \<Rightarrow> bytes \<Rightarrow> bytes" where
  "rwire0 sc h b = ''HTTP/1.1 '' @ Sprintf_d sc @ CRLF @ CRLF @ b"

definition rparse0 :: "bytes \<Rightarrow> (int \<times> header \<times> bytes) option" where
  "rparse0 d =
     (let t = takeWhile (\<lambda>c. c \<noteq> CHR 0x0D) (drop 9 d)
      in if take 9 d = ''HTTP/1.1 '' \<and> take 4 (drop (9 + length t) d) = CRLF @ CRLF
         then Some (int (undecimal t), [], drop (13 + length t) d) else None)"

definition lib0 :: httplib where
  "lib0 = \<lparr>filepath_Join = (\<lambda>d f. d @ ''/'' @ f),
           Request_wire = wire0, Request_parse = parse0,
           Response_wire = rwire0, Response_parse = rparse0,
           StatusText = (\<lambda>c. if c = 200 then ''OK'' else if c = 500 then ''Internal Server Error'' else []),
           proxyErrStatus = 500\<rparr>"

text \<open>A world with no files and no faults that holds one inbound request, a
  \<^verbatim>\<open>POST /\<close> with the body \<^verbatim>\<open>hello\<close>, and a caller-facing writer nothing has been
  written to.\<close>

definition world0 :: world where
  "world0 = \<lparr>files = Map.empty, faults = {}, handles = [], heap = [[]], streams = [''hello''],
             logs = [], calls = [], replays = []\<rparr>"

definition req0 :: request where
  "req0 = \<lparr>Method = ''POST'', URL = ''/'', RequestURI = ''/'', Header = 0, Body = 0\<rparr>"

definition writer0 :: ResponseWriter where
  "writer0 = \<lparr>hdr_w = [], status_w = 0, body_w = []\<rparr>"

definition answers :: "int \<Rightarrow> bytes \<Rightarrow> backend" where
  "answers sc b = (\<lambda>x. Inr (sc, [], b))"

definition unreachable :: backend where
  "unreachable = (\<lambda>x. Inl ''connection refused'')"

definition listener0 :: netListener where
  "listener0 = \<lparr>lclosed = False, backlog = [7, 8], closed_conns = {}\<rparr>"

definition server0 :: dualServer where
  "server0 = newDualServer ''reqlog'' (answers 200 ''ok'') (answers 200 ''ok'')"

section \<open>Predicates used in the proofs\<close>

text \<open>The handle \<open>fh\<close> is open on the path \<open>q\<close>.\<close>

definition names :: "nat \<Rightarrow> string \<Rightarrow> world \<Rightarrow> bool" where
  "names fh q s \<longleftrightarrow> fh < length (handles s) \<and> fst (handles s ! fh) = q"

text \<open>From \<open>s\<close> to \<open>s'\<close> the request objects that \<^verbatim>\<open>http.ReadRequest\<close> returned are
  \<open>new\<close>, and the header map of each is a new address of the heap, one after the
  other.\<close>

definition fresh_replays :: "world \<Rightarrow> world \<Rightarrow> bool" where
  "fresh_replays s s' \<longleftrightarrow>
     (\<exists>new. replays s' = replays s @ new \<and>
            length (heap s') = length (heap s) + length new \<and>
            (\<forall>j < length new. Header (fst (new ! j)) = length (heap s) + j))"

text \<open>From \<open>s\<close> to \<open>s'\<close> every request object that \<^verbatim>\<open>http.ReadRequest\<close> returned has
  the body bytes \<open>B\<close>.\<close>

definition replays_carry :: "bytes \<Rightarrow> world \<Rightarrow> world \<Rightarrow> bool" where
  "replays_carry B s s' \<longleftrightarrow>
     (\<exists>new. replays s' = replays s @ new \<and> (\<forall>x \<in> set new. snd x = B))"

text \<open>From \<open>s\<close> to \<open>s'\<close> every request that reached a backend was sent with the body
  bytes \<open>B\<close>.\<close>

definition calls_carry :: "bytes \<Rightarrow> world \<Rightarrow> world \<Rightarrow> bool" where
  "calls_carry B s s' \<longleftrightarrow>
     (\<exists>new. calls s' = calls s @ new \<and> (\<forall>c \<in> set new. snd (snd c) = B))"

section \<open>Properties of the sequence allocator\<close>

lemma nextIDs_length: "length (fst (nextIDs n ds)) = n"
  by (induction n arbitrary: ds) (simp_all add: nextID_def case_prod_beta)

lemma nextIDs_nth:
  "k < n \<Longrightarrow> fst (nextIDs n ds) ! k = id_ds ds + of_nat (Suc k)"
proof (induction n arbitrary: ds k)
  case 0
  then show ?case by simp
next
  case (Suc n)
  show ?case
  proof (cases k)
    case 0
    then show ?thesis by (simp add: nextID_def case_prod_beta)
  next
    case (Suc k')
    with Suc.prems have "k' < n" by simp
    from Suc.IH [OF this, of "ds\<lparr>id_ds := id_ds ds + 1\<rparr>"] Suc
    show ?thesis by (simp add: nextID_def case_prod_beta)
  qed
qed

lemma unat_add_of_nat:
  fixes a :: "32 word"
  assumes "unat a + k < 2 ^ 32"
  shows "unat (a + of_nat k) = unat a + k"
proof -
  from assms have k: "k < 2 ^ LENGTH(32)" by simp
  have u: "unat (of_nat k :: 32 word) = k"
    by (rule of_nat_inverse [OF refl k])
  have "unat a + unat (of_nat k :: 32 word) < 2 ^ LENGTH(32)"
    using assms u by simp
  then have "unat (a + of_nat k) = unat a + unat (of_nat k :: 32 word)"
    by (simp only: unat_add_lem)
  with u show ?thesis by simp
qed

lemma of_nat_2_32: "(of_nat (Suc (2 ^ 32 - 1)) :: 32 word) = 0"
proof -
  have "Suc (2 ^ 32 - 1) = (2 ^ 32 :: nat)" by simp
  then show ?thesis by (simp only: of_nat_power of_nat_numeral) simp
qed

text \<open>
  C8, as stated, fails: the counter is a \<^verbatim>\<open>uint32\<close>. Of \<open>2^32\<close> successive calls on a
  new server the first returns 1 and the last returns 0, which is smaller than an
  identifier returned before it.
\<close>

theorem nextID_wraps_counterexample:
  "fst (nextIDs (2 ^ 32) server0) ! (2 ^ 32 - 1) < fst (nextIDs (2 ^ 32) server0) ! 0"
proof -
  have a: "fst (nextIDs (2 ^ 32) server0) ! (2 ^ 32 - 1) = id_ds server0 + of_nat (Suc (2 ^ 32 - 1))"
    by (rule nextIDs_nth) simp
  have b: "fst (nextIDs (2 ^ 32) server0) ! 0 = id_ds server0 + of_nat (Suc 0)"
    by (rule nextIDs_nth) simp
  show ?thesis
    unfolding a b of_nat_2_32 by (simp add: server0_def newDualServer_def)
qed

text \<open>
  C8, amended: as long as the counter does not pass \<open>2^32 - 1\<close>, that is for \<open>n\<close>
  successive calls with \<open>id + n < 2^32\<close>, every identifier returned is greater than
  every identifier returned before it; so none is a duplicate of or smaller than an
  earlier one.
\<close>

theorem nextID_increasing:
  assumes "unat (id_ds ds) + n < 2 ^ 32" and "i < j" and "j < n"
  shows "fst (nextIDs n ds) ! i < fst (nextIDs n ds) ! j"
proof -
  have i: "fst (nextIDs n ds) ! i = id_ds ds + of_nat (Suc i)"
    using assms by (intro nextIDs_nth) simp
  have j: "fst (nextIDs n ds) ! j = id_ds ds + of_nat (Suc j)"
    using assms by (intro nextIDs_nth) simp
  have ui: "unat (id_ds ds + of_nat (Suc i)) = unat (id_ds ds) + Suc i"
    using assms by (intro unat_add_of_nat) simp
  have uj: "unat (id_ds ds + of_nat (Suc j)) = unat (id_ds ds) + Suc j"
    using assms by (intro unat_add_of_nat) simp
  show ?thesis
    unfolding i j word_less_nat_alt ui uj using assms by simp
qed

theorem nextID_increasing_witness:
  "fst (nextIDs 3 server0) ! 0 < fst (nextIDs 3 server0) ! 2"
proof -
  have "unat (id_ds server0) + 3 < 2 ^ 32" by (simp add: server0_def newDualServer_def)
  from nextID_increasing [OF this, of 0 2] show ?thesis by simp
qed

section \<open>Properties of the draining listener\<close>

lemma Close_counter: "WaitGroup (snd (Close sc sl)) = WaitGroup sl - 1"
  by (simp add: Close_def WaitGroup_Done_def WaitGroup_Add_def case_prod_beta)

lemma Close_returns:
  "1 \<le> WaitGroup sl \<Longrightarrow> \<exists>e. fst (Close sc sl) = Returns e"
  by (simp add: Close_def WaitGroup_Done_def WaitGroup_Add_def case_prod_beta)

lemma Close_panics:
  "WaitGroup sl < 1 \<Longrightarrow> fst (Close sc sl) = Panics ''sync: negative WaitGroup counter''"
  by (simp add: Close_def WaitGroup_Done_def WaitGroup_Add_def case_prod_beta)

lemma Closes_ok:
  "0 < k \<Longrightarrow> int k \<le> WaitGroup sl \<Longrightarrow>
   \<exists>e sl'. Closes k sc sl = (Returns e, sl') \<and> WaitGroup sl' = WaitGroup sl - int k"
proof (induction k arbitrary: sl)
  case 0
  then show ?case by simp
next
  case (Suc k)
  from Suc.prems have "1 \<le> WaitGroup sl" by simp
  from Close_returns [OF this, of sc] obtain e where e: "fst (Close sc sl) = Returns e" by blast
  define sl1 where "sl1 = snd (Close sc sl)"
  have c: "Close sc sl = (Returns e, sl1)" using e by (simp add: sl1_def prod_eq_iff)
  have w: "WaitGroup sl1 = WaitGroup sl - 1" by (simp add: sl1_def Close_counter)
  show ?case
  proof (cases "k = 0")
    case True
    then show ?thesis using c w by simp
  next
    case False
    with Suc.prems w have "0 < k" "int k \<le> WaitGroup sl1" by simp_all
    from Suc.IH [OF this] obtain e' sl' where
      "Closes k sc sl1 = (Returns e', sl')" "WaitGroup sl' = WaitGroup sl1 - int k" by blast
    then show ?thesis using c w False by simp
  qed
qed

lemma Closes_panic:
  "0 \<le> WaitGroup sl \<Longrightarrow> WaitGroup sl < int k \<Longrightarrow>
   \<exists>sl'. Closes k sc sl = (Panics ''sync: negative WaitGroup counter'', sl') \<and> WaitGroup sl' = - 1"
proof (induction k arbitrary: sl)
  case 0
  then show ?case by simp
next
  case (Suc k)
  show ?case
  proof (cases "WaitGroup sl = 0")
    case True
    then have m: "fst (Close sc sl) = Panics ''sync: negative WaitGroup counter''"
      by (intro Close_panics) simp
    have c: "Close sc sl = (Panics ''sync: negative WaitGroup counter'', snd (Close sc sl))"
      using m by (simp add: prod_eq_iff)
    have "WaitGroup (snd (Close sc sl)) = - 1" using True by (simp add: Close_counter)
    then show ?thesis by (subst Closes.simps, subst c) simp
  next
    case False
    with Suc.prems have pos: "1 \<le> WaitGroup sl" by simp
    from Close_returns [OF this, of sc] obtain e where e: "fst (Close sc sl) = Returns e" by blast
    define sl1 where "sl1 = snd (Close sc sl)"
    have c: "Close sc sl = (Returns e, sl1)" using e by (simp add: sl1_def prod_eq_iff)
    have w: "WaitGroup sl1 = WaitGroup sl - 1" by (simp add: sl1_def Close_counter)
    from Suc.prems pos w have k: "k \<noteq> 0" "0 \<le> WaitGroup sl1" "WaitGroup sl1 < int k" by auto
    from Suc.IH [OF k(2,3)] obtain sl' where
      "Closes k sc sl1 = (Panics ''sync: negative WaitGroup counter'', sl')" "WaitGroup sl' = - 1" by blast
    then show ?thesis using c k by simp
  qed
qed

lemma Accept_counter:
  assumes "Accept sl = (Returns (Inr sc), sl1)" and "0 \<le> WaitGroup sl"
  shows "WaitGroup sl1 = WaitGroup sl + 1"
proof (cases "lclosed (Listener sl)")
  case True
  with assms show ?thesis by (simp add: Accept_def Listener_Accept_def)
next
  case False
  show ?thesis
  proof (cases "backlog (Listener sl)")
    case Nil
    with False assms show ?thesis by (simp add: Accept_def Listener_Accept_def)
  next
    case (Cons c cs)
    with False assms show ?thesis
      by (auto simp add: Accept_def Listener_Accept_def WaitGroup_Add_def)
  qed
qed

text \<open>
  C2, as stated, fails: \<^verbatim>\<open>Close\<close> calls \<^verbatim>\<open>Done\<close> on every invocation. A connection is
  accepted on a new listener (counter 1) and closed twice: the second close takes the
  counter to \<open>-1\<close>, two units below its value after the accept, and panics.
\<close>

theorem Close_twice_counterexample:
  "fst (Accept (newStoppableListener listener0)) = Returns (Inr \<lparr>Conn = 7\<rparr>) \<and>
   WaitGroup (snd (Accept (newStoppableListener listener0))) = 1 \<and>
   fst (Closes 2 \<lparr>Conn = 7\<rparr> (snd (Accept (newStoppableListener listener0))))
     = Panics ''sync: negative WaitGroup counter'' \<and>
   WaitGroup (snd (Closes 2 \<lparr>Conn = 7\<rparr> (snd (Accept (newStoppableListener listener0))))) = - 1"
  by (simp add: Accept_def Listener_Accept_def newStoppableListener_def listener0_def
      WaitGroup_Add_def WaitGroup_Done_def Close_def Conn_Close_def numeral_2_eq_2)

text \<open>
  C2, amended: a successful accept increments the counter by one, and every invocation
  of close on the connection decrements it by one: \<open>k > 0\<close> invocations decrement it by
  \<open>k\<close> in total and all return while \<open>k\<close> does not exceed the counter; with more
  invocations than that, the one that finds the counter at zero takes it to \<open>-1\<close> and
  panics.
\<close>

theorem Close_decrements:
  assumes "Accept sl = (Returns (Inr sc), sl1)" and "0 \<le> WaitGroup sl"
  shows "WaitGroup sl1 = WaitGroup sl + 1 \<and>
         (\<forall>k. 0 < k \<and> int k \<le> WaitGroup sl1 \<longrightarrow>
            (\<exists>e sl2. Closes k sc sl1 = (Returns e, sl2) \<and> WaitGroup sl2 = WaitGroup sl1 - int k)) \<and>
         (\<forall>k. WaitGroup sl1 < int k \<longrightarrow>
            (\<exists>sl2. Closes k sc sl1 = (Panics ''sync: negative WaitGroup counter'', sl2) \<and>
                   WaitGroup sl2 = - 1))"
proof -
  have w: "WaitGroup sl1 = WaitGroup sl + 1"
    using assms by (rule Accept_counter)
  with assms(2) have nn: "0 \<le> WaitGroup sl1" by simp
  have A: "\<forall>k. 0 < k \<and> int k \<le> WaitGroup sl1 \<longrightarrow>
            (\<exists>e sl2. Closes k sc sl1 = (Returns e, sl2) \<and> WaitGroup sl2 = WaitGroup sl1 - int k)"
    using Closes_ok by blast
  have B: "\<forall>k. WaitGroup sl1 < int k \<longrightarrow>
            (\<exists>sl2. Closes k sc sl1 = (Panics ''sync: negative WaitGroup counter'', sl2) \<and>
                   WaitGroup sl2 = - 1)"
    using Closes_panic [OF nn] by blast
  from w A B show ?thesis by blast
qed

theorem Close_decrements_witness:
  "Accept (newStoppableListener listener0)
     = (Returns (Inr \<lparr>Conn = 7\<rparr>),
        \<lparr>Listener = \<lparr>lclosed = False, backlog = [8], closed_conns = {}\<rparr>, WaitGroup = 1\<rparr>) \<and>
   0 \<le> WaitGroup (newStoppableListener listener0) \<and>
   (\<exists>e sl2. Closes 1 \<lparr>Conn = 7\<rparr>
               \<lparr>Listener = \<lparr>lclosed = False, backlog = [8], closed_conns = {}\<rparr>, WaitGroup = 1\<rparr>
             = (Returns e, sl2) \<and> WaitGroup sl2 = 0) \<and>
   (\<exists>sl2. Closes 2 \<lparr>Conn = 7\<rparr>
             \<lparr>Listener = \<lparr>lclosed = False, backlog = [8], closed_conns = {}\<rparr>, WaitGroup = 1\<rparr>
           = (Panics ''sync: negative WaitGroup counter'', sl2) \<and> WaitGroup sl2 = - 1)"
proof -
  have a: "Accept (newStoppableListener listener0)
     = (Returns (Inr \<lparr>Conn = 7\<rparr>),
        \<lparr>Listener = \<lparr>lclosed = False, backlog = [8], closed_conns = {}\<rparr>, WaitGroup = 1\<rparr>)"
    by (simp add: Accept_def Listener_Accept_def newStoppableListener_def listener0_def
        WaitGroup_Add_def)
  have b: "0 \<le> WaitGroup (newStoppableListener listener0)"
    by (simp add: newStoppableListener_def)
  from Close_decrements [OF a b] have
    k1: "\<And>k. 0 < k \<and> int k \<le> 1 \<longrightarrow>
           (\<exists>e sl2. Closes k \<lparr>Conn = 7\<rparr>
               \<lparr>Listener = \<lparr>lclosed = False, backlog = [8], closed_conns = {}\<rparr>, WaitGroup = 1\<rparr>
             = (Returns e, sl2) \<and> WaitGroup sl2 = 1 - int k)"
    and k2: "\<And>k. 1 < int k \<longrightarrow>
           (\<exists>sl2. Closes k \<lparr>Conn = 7\<rparr>
             \<lparr>Listener = \<lparr>lclosed = False, backlog = [8], closed_conns = {}\<rparr>, WaitGroup = 1\<rparr>
           = (Panics ''sync: negative WaitGroup counter'', sl2) \<and> WaitGroup sl2 = - 1)"
    by simp_all
  from k1 [of 1] k2 [of 2] a b show ?thesis by simp
qed

section \<open>Basic facts about the library operations\<close>

subsection \<open>Streams and the log\<close>

lemma read_all_frame [simp]:
  "files (snd (read_all i s)) = files s"
  "faults (snd (read_all i s)) = faults s"
  "handles (snd (read_all i s)) = handles s"
  "heap (snd (read_all i s)) = heap s"
  "logs (snd (read_all i s)) = logs s"
  "calls (snd (read_all i s)) = calls s"
  "replays (snd (read_all i s)) = replays s"
  "streams (snd (read_all i s)) = (streams s)[i := []]"
  by (simp_all add: read_all_def list_update_beyond)

lemma read_all_fst: "fst (read_all i s) = (if i < length (streams s) then streams s ! i else [])"
  by (simp add: read_all_def)

lemma new_stream_frame [simp]:
  "files (snd (new_stream b s)) = files s"
  "faults (snd (new_stream b s)) = faults s"
  "handles (snd (new_stream b s)) = handles s"
  "heap (snd (new_stream b s)) = heap s"
  "logs (snd (new_stream b s)) = logs s"
  "calls (snd (new_stream b s)) = calls s"
  "replays (snd (new_stream b s)) = replays s"
  "streams (snd (new_stream b s)) = streams s @ [b]"
  "fst (new_stream b s) = length (streams s)"
  by (simp_all add: new_stream_def)

lemma Log_frame [simp]:
  "files (Log l m c s) = files s"
  "faults (Log l m c s) = faults s"
  "handles (Log l m c s) = handles s"
  "heap (Log l m c s) = heap s"
  "streams (Log l m c s) = streams s"
  "calls (Log l m c s) = calls s"
  "replays (Log l m c s) = replays s"
  "logs (Log l m c s) = logs s @ [(l, m, c)]"
  by (simp_all add: Log_def)

lemma names_upd [simp]:
  "names fh q (s\<lparr>files := f\<rparr>) = names fh q s"
  "names fh q (s\<lparr>heap := h\<rparr>) = names fh q s"
  "names fh q (s\<lparr>streams := st\<rparr>) = names fh q s"
  "names fh q (s\<lparr>logs := lg\<rparr>) = names fh q s"
  "names fh q (s\<lparr>calls := cs\<rparr>) = names fh q s"
  "names fh q (s\<lparr>replays := rs\<rparr>) = names fh q s"
  by (simp_all add: names_def)

lemma names_simple [simp]:
  "names fh q (snd (read_all i s)) = names fh q s"
  "names fh q (snd (new_stream b s)) = names fh q s"
  "names fh q (Log l m c s) = names fh q s"
  by (simp_all add: names_def)

subsection \<open>Files\<close>

lemma os_Create_frame [simp]:
  "faults (snd (os_Create p s)) = faults s"
  "heap (snd (os_Create p s)) = heap s"
  "streams (snd (os_Create p s)) = streams s"
  "logs (snd (os_Create p s)) = logs s"
  "calls (snd (os_Create p s)) = calls s"
  "replays (snd (os_Create p s)) = replays s"
  by (simp_all add: os_Create_def)

lemma os_Create_files:
  "files (snd (os_Create p s)) q =
     (if (OpCreate, p) \<in> faults s then files s q else if q = p then Some [] else files s q)"
  by (simp add: os_Create_def)

lemma os_Create_other [simp]: "q \<noteq> p \<Longrightarrow> files (snd (os_Create p s)) q = files s q"
  by (simp add: os_Create_files)

lemma os_Create_fst:
  "fst (os_Create p s) = (if (OpCreate, p) \<in> faults s then Inl (PathError ''open'' p)
                          else Inr (length (handles s)))"
  by (simp add: os_Create_def)

lemma os_Create_names [simp]: "names fh q s \<Longrightarrow> names fh q (snd (os_Create p s))"
  by (simp add: os_Create_def names_def nth_append)

lemma os_Create_new: "fst (os_Create p s) = Inr fh \<Longrightarrow> names fh p (snd (os_Create p s))"
  by (auto simp add: os_Create_def names_def split: if_splits)

lemma os_Create_new_file:
  "fst (os_Create p s) = Inr fh \<Longrightarrow> files (snd (os_Create p s)) p = Some []"
  by (auto simp add: os_Create_def split: if_splits)

lemma os_Create_offset:
  "fst (os_Create p s) = Inr fh \<Longrightarrow> handles (snd (os_Create p s)) ! fh = (p, 0)"
  by (auto simp add: os_Create_def split: if_splits)

lemma os_Open_frame [simp]:
  "faults (snd (os_Open p s)) = faults s"
  "files (snd (os_Open p s)) = files s"
  "heap (snd (os_Open p s)) = heap s"
  "streams (snd (os_Open p s)) = streams s"
  "logs (snd (os_Open p s)) = logs s"
  "calls (snd (os_Open p s)) = calls s"
  "replays (snd (os_Open p s)) = replays s"
  by (simp_all add: os_Open_def)

lemma os_Open_names [simp]: "names fh q s \<Longrightarrow> names fh q (snd (os_Open p s))"
  by (simp add: os_Open_def names_def nth_append)

lemma os_Open_new: "fst (os_Open p s) = Inr fh \<Longrightarrow> names fh p (snd (os_Open p s))"
  by (auto simp add: os_Open_def names_def split: if_splits)

lemma os_Open_offset:
  "fst (os_Open p s) = Inr fh \<Longrightarrow> handles (snd (os_Open p s)) ! fh = (p, 0) \<and> files s p \<noteq> None"
  by (auto simp add: os_Open_def split: if_splits)

lemma os_Open_fst:
  "fst (os_Open p s) = (if (OpOpen, p) \<in> faults s \<or> files s p = None
                        then Inl (PathError ''open'' p) else Inr (length (handles s)))"
  by (simp add: os_Open_def)

lemma File_Write_frame [simp]:
  "faults (snd (File_Write fh b s)) = faults s"
  "heap (snd (File_Write fh b s)) = heap s"
  "streams (snd (File_Write fh b s)) = streams s"
  "logs (snd (File_Write fh b s)) = logs s"
  "calls (snd (File_Write fh b s)) = calls s"
  "replays (snd (File_Write fh b s)) = replays s"
  by (simp_all add: File_Write_def case_prod_beta split: option.splits)

lemma File_Write_names [simp]: "names fh' q (snd (File_Write fh b s)) = names fh' q s"
  by (auto simp add: File_Write_def names_def case_prod_beta nth_list_update split: option.splits)

lemma File_Write_other [simp]:
  "names fh p s \<Longrightarrow> q \<noteq> p \<Longrightarrow> files (snd (File_Write fh b s)) q = files s q"
  by (auto simp add: File_Write_def names_def case_prod_beta split: option.splits)

lemma File_Write_dom [simp]:
  "files (snd (File_Write fh b s)) q = None \<longleftrightarrow> files s q = None"
  by (auto simp add: File_Write_def case_prod_beta split: option.splits)

lemma File_Close_frame [simp]: "snd (File_Close fh s) = s"
  by (simp add: File_Close_def case_prod_beta)

lemma File_Seek0_frame [simp]:
  "faults (snd (File_Seek0 fh s)) = faults s"
  "files (snd (File_Seek0 fh s)) = files s"
  "heap (snd (File_Seek0 fh s)) = heap s"
  "streams (snd (File_Seek0 fh s)) = streams s"
  "logs (snd (File_Seek0 fh s)) = logs s"
  "calls (snd (File_Seek0 fh s)) = calls s"
  "replays (snd (File_Seek0 fh s)) = replays s"
  by (simp_all add: File_Seek0_def case_prod_beta)

lemma File_Seek0_names [simp]: "names fh' q (snd (File_Seek0 fh s)) = names fh' q s"
  by (auto simp add: File_Seek0_def names_def case_prod_beta nth_list_update)

lemma File_ReadAll_frame [simp]:
  "faults (snd (File_ReadAll fh s)) = faults s"
  "files (snd (File_ReadAll fh s)) = files s"
  "heap (snd (File_ReadAll fh s)) = heap s"
  "streams (snd (File_ReadAll fh s)) = streams s"
  "logs (snd (File_ReadAll fh s)) = logs s"
  "calls (snd (File_ReadAll fh s)) = calls s"
  "replays (snd (File_ReadAll fh s)) = replays s"
  by (simp_all add: File_ReadAll_def case_prod_beta split: option.splits)

lemma File_ReadAll_names [simp]: "names fh' q (snd (File_ReadAll fh s)) = names fh' q s"
  by (auto simp add: File_ReadAll_def names_def case_prod_beta nth_list_update split: option.splits)

lemma File_ReadAll_start:
  "fh < length (handles s) \<Longrightarrow> handles s ! fh = (p, 0) \<Longrightarrow> files s p = Some d \<Longrightarrow>
   fst (File_ReadAll fh s) = d"
  by (simp add: File_ReadAll_def)

lemma File_Name_names: "names fh q s \<Longrightarrow> File_Name fh s = q"
  by (simp add: File_Name_def names_def)

lemma os_Remove_frame [simp]:
  "faults (snd (os_Remove p s)) = faults s"
  "handles (snd (os_Remove p s)) = handles s"
  "heap (snd (os_Remove p s)) = heap s"
  "streams (snd (os_Remove p s)) = streams s"
  "logs (snd (os_Remove p s)) = logs s"
  "calls (snd (os_Remove p s)) = calls s"
  "replays (snd (os_Remove p s)) = replays s"
  by (simp_all add: os_Remove_def)

lemma os_Remove_names [simp]: "names fh q (snd (os_Remove p s)) = names fh q s"
  by (simp add: names_def)

lemma os_Remove_other [simp]: "q \<noteq> p \<Longrightarrow> files (snd (os_Remove p s)) q = files s q"
  by (simp add: os_Remove_def)

lemma os_Remove_gone:
  "(OpRemove, p) \<notin> faults s \<Longrightarrow> files (snd (os_Remove p s)) p = None"
  by (simp add: os_Remove_def)

lemma os_Remove_absent [simp]:
  "files s q = None \<Longrightarrow> files (snd (os_Remove p s)) q = None"
  by (simp add: os_Remove_def)

subsection \<open>Small evaluations\<close>

lemma replicate_8: "replicate 8 c = [c, c, c, c, c, c, c, c]"
  by (simp add: eval_nat_numeral)

lemma unat_id1 [simp]: "unat (1 :: 32 word) = 1"
  by simp

lemma Sprintf_09d_1: "Sprintf_09d 1 = ''000000001''"
  by (simp add: Sprintf_09d_def decimal.simps replicate_8)

lemma Sprintf_09d_Suc0: "Sprintf_09d (Suc 0) = ''000000001''"
  using Sprintf_09d_1 by simp


subsection \<open>Requests and responses on the wire\<close>

lemma Request_Write_frame [simp]:
  "faults (snd (Request_Write L r fh s)) = faults s"
  "heap (snd (Request_Write L r fh s)) = heap s"
  "logs (snd (Request_Write L r fh s)) = logs s"
  "calls (snd (Request_Write L r fh s)) = calls s"
  "replays (snd (Request_Write L r fh s)) = replays s"
  "streams (snd (Request_Write L r fh s)) = (streams s)[Body r := []]"
  "names fh' q (snd (Request_Write L r fh s)) = names fh' q s"
  by (simp_all add: Request_Write_def case_prod_beta)

lemma Request_Write_other [simp]:
  "names fh p s \<Longrightarrow> q \<noteq> p \<Longrightarrow> files (snd (Request_Write L r fh s)) q = files s q"
  by (simp add: Request_Write_def case_prod_beta)

lemma Request_Write_dom [simp]:
  "files (snd (Request_Write L r fh s)) q = None \<longleftrightarrow> files s q = None"
  by (simp add: Request_Write_def case_prod_beta)

lemma Request_Write_content:
  assumes "fh < length (handles s)" and "handles s ! fh = (p, 0)" and "files s p = Some []"
    and "fst (Request_Write L r fh s) = None"
  shows "files (snd (Request_Write L r fh s)) p
           = Some (Request_wire L (Method r) (URL r) (header_of r s) (fst (read_all (Body r) s)))"
  using assms
  by (simp add: Request_Write_def File_Write_def case_prod_beta header_of_def split: if_splits)

lemma Response_Write_frame [simp]:
  "faults (snd (Response_Write L resp fh s)) = faults s"
  "heap (snd (Response_Write L resp fh s)) = heap s"
  "logs (snd (Response_Write L resp fh s)) = logs s"
  "calls (snd (Response_Write L resp fh s)) = calls s"
  "replays (snd (Response_Write L resp fh s)) = replays s"
  "streams (snd (Response_Write L resp fh s)) = (streams s)[RespBody resp := []]"
  "names fh' q (snd (Response_Write L resp fh s)) = names fh' q s"
  by (simp_all add: Response_Write_def case_prod_beta)

lemma Response_Write_other [simp]:
  "names fh p s \<Longrightarrow> q \<noteq> p \<Longrightarrow> files (snd (Response_Write L resp fh s)) q = files s q"
  by (simp add: Response_Write_def case_prod_beta)

lemma Response_Write_dom [simp]:
  "files (snd (Response_Write L resp fh s)) q = None \<longleftrightarrow> files s q = None"
  by (simp add: Response_Write_def case_prod_beta)

lemma http_ReadRequest_frame [simp]:
  "faults (snd (http_ReadRequest L fh s)) = faults s"
  "files (snd (http_ReadRequest L fh s)) = files s"
  "logs (snd (http_ReadRequest L fh s)) = logs s"
  "calls (snd (http_ReadRequest L fh s)) = calls s"
  "names fh' q (snd (http_ReadRequest L fh s)) = names fh' q s"
  by (simp_all add: http_ReadRequest_def case_prod_beta Let_def split: option.splits)

lemma http_ReadRequest_Inl:
  assumes "fst (http_ReadRequest L fh s) = Inl e"
  shows "heap (snd (http_ReadRequest L fh s)) = heap s"
    and "streams (snd (http_ReadRequest L fh s)) = streams s"
    and "replays (snd (http_ReadRequest L fh s)) = replays s"
  using assms
  by (simp_all add: http_ReadRequest_def case_prod_beta Let_def split: option.splits)

lemma http_ReadRequest_Inr:
  assumes "fst (http_ReadRequest L fh s) = Inr rq"
  shows "\<exists>m u h b. Request_parse L (fst (File_ReadAll fh s)) = Some (m, u, h, b) \<and>
           rq = \<lparr>Method = m, URL = u, RequestURI = u, Header = length (heap s), Body = length (streams s)\<rparr> \<and>
           heap (snd (http_ReadRequest L fh s)) = heap s @ [h] \<and>
           streams (snd (http_ReadRequest L fh s)) = streams s @ [b] \<and>
           replays (snd (http_ReadRequest L fh s)) = replays s @ [(rq, b)]"
  using assms
  by (auto simp add: http_ReadRequest_def case_prod_beta Let_def split: option.splits)

lemma http_ReadResponse_frame [simp]:
  "faults (snd (http_ReadResponse L fh s)) = faults s"
  "files (snd (http_ReadResponse L fh s)) = files s"
  "heap (snd (http_ReadResponse L fh s)) = heap s"
  "logs (snd (http_ReadResponse L fh s)) = logs s"
  "calls (snd (http_ReadResponse L fh s)) = calls s"
  "replays (snd (http_ReadResponse L fh s)) = replays s"
  "names fh' q (snd (http_ReadResponse L fh s)) = names fh' q s"
  by (simp_all add: http_ReadResponse_def case_prod_beta split: option.splits)

lemma Client_Do_frame [simp]:
  "faults (snd (Client_Do tag be rq s)) = faults s"
  "files (snd (Client_Do tag be rq s)) = files s"
  "handles (snd (Client_Do tag be rq s)) = handles s"
  "heap (snd (Client_Do tag be rq s)) = heap s"
  "logs (snd (Client_Do tag be rq s)) = logs s"
  "replays (snd (Client_Do tag be rq s)) = replays s"
  "names fh q (snd (Client_Do tag be rq s)) = names fh q s"
  by (simp_all add: Client_Do_def case_prod_beta Let_def split: sum.splits)

lemma Client_Do_calls:
  "calls (snd (Client_Do tag be rq s)) =
     (if RequestURI rq \<noteq> [] then calls s
      else calls s @ [(tag, rq, fst (read_all (Body rq) s))])"
  by (simp add: Client_Do_def case_prod_beta Let_def split: sum.splits)

lemma Client_Do_Inr:
  assumes "fst (Client_Do tag be rq s) = Inr resp"
  shows "RequestURI rq = [] \<and>
         (\<exists>body. be (Method rq, URL rq, header_of rq s, fst (read_all (Body rq) s))
                    = Inr (StatusCode resp, RespHeader resp, body))"
  using assms
  by (auto simp add: Client_Do_def case_prod_beta Let_def header_of_def split: sum.splits if_splits)

lemma Client_Do_fails:
  assumes "\<forall>x. \<exists>m. be x = Inl m"
  shows "\<exists>e. fst (Client_Do tag be rq s) = Inl (NetError e)"
proof -
  from assms obtain m where
    "be (Method rq, URL rq, header_of rq ((snd (read_all (Body rq) s))\<lparr>calls := calls (snd (read_all (Body rq) s)) @ [(tag, rq, fst (read_all (Body rq) s))]\<rparr>), fst (read_all (Body rq) s)) = Inl m"
    by blast
  then show ?thesis
    by (simp add: Client_Do_def case_prod_beta Let_def)
qed

subsection \<open>The caller-facing writer\<close>

lemma http_Error_status:
  "status_w w = 0 \<Longrightarrow> status_w (http_Error w msg StatusInternalServerError) = StatusInternalServerError"
  by (simp add: http_Error_def W_Write_def W_WriteHeader_def StatusInternalServerError_def StatusOK_def Let_def)

lemma http_Error_body:
  "body_w (http_Error w msg code) = body_w w @ msg @ [CHR 0x0A]"
  by (simp add: http_Error_def W_Write_def W_WriteHeader_def Let_def)


section \<open>Summaries of the functions of \<^verbatim>\<open>main.go\<close>\<close>

lemma readReq_frame [simp]:
  "faults (snd (readReq L nm s)) = faults s"
  "files (snd (readReq L nm s)) = files s"
  "logs (snd (readReq L nm s)) = logs s"
  "calls (snd (readReq L nm s)) = calls s"
  "names fh q s \<Longrightarrow> names fh q (snd (readReq L nm s))"
  by (simp_all add: readReq_def case_prod_beta split: sum.splits)

lemma readReq_Inl:
  assumes "fst (readReq L nm s) = Inl e"
  shows "heap (snd (readReq L nm s)) = heap s"
    and "streams (snd (readReq L nm s)) = streams s"
    and "replays (snd (readReq L nm s)) = replays s"
  using assms
  by (simp_all add: readReq_def case_prod_beta http_ReadRequest_Inl split: sum.splits)

lemma readReq_Inr:
  assumes "fst (readReq L nm s) = Inr rq"
  shows "\<exists>d m u h b. files s nm = Some d \<and> Request_parse L d = Some (m, u, h, b) \<and>
           rq = \<lparr>Method = m, URL = u, RequestURI = u, Header = length (heap s), Body = length (streams s)\<rparr> \<and>
           heap (snd (readReq L nm s)) = heap s @ [h] \<and>
           streams (snd (readReq L nm s)) = streams s @ [b] \<and>
           replays (snd (readReq L nm s)) = replays s @ [(rq, b)]"
proof -
  from assms obtain fh where o: "fst (os_Open nm s) = Inr fh"
    and rr: "fst (http_ReadRequest L fh (snd (os_Open nm s))) = Inr rq"
    and sn: "snd (readReq L nm s) = snd (http_ReadRequest L fh (snd (os_Open nm s)))"
    by (auto simp add: readReq_def case_prod_beta split: sum.splits)
  from os_Open_offset [OF o] obtain d where d: "files s nm = Some d"
    and h: "handles (snd (os_Open nm s)) ! fh = (nm, 0)" by auto
  from os_Open_new [OF o] have v: "fh < length (handles (snd (os_Open nm s)))"
    by (simp add: names_def)
  have rd: "fst (File_ReadAll fh (snd (os_Open nm s))) = d"
    using v h d by (intro File_ReadAll_start) simp_all
  from http_ReadRequest_Inr [OF rr] show ?thesis
    unfolding sn rd using d by simp
qed

lemma saveRequest_frame [simp]:
  "faults (snd (saveRequest L dest r s)) = faults s"
  "heap (snd (saveRequest L dest r s)) = heap s"
  "logs (snd (saveRequest L dest r s)) = logs s"
  "calls (snd (saveRequest L dest r s)) = calls s"
  "replays (snd (saveRequest L dest r s)) = replays s"
  "length (streams (snd (saveRequest L dest r s))) = length (streams s)"
  "names fh q s \<Longrightarrow> names fh q (snd (saveRequest L dest r s))"
  by (simp_all add: saveRequest_def case_prod_beta split: sum.splits option.splits)

lemma saveRequest_other [simp]:
  "q \<noteq> dest \<Longrightarrow> files (snd (saveRequest L dest r s)) q = files s q"
  by (auto simp add: saveRequest_def case_prod_beta dest!: os_Create_new split: sum.splits option.splits)

lemma saveRequest_Inr:
  assumes "fst (saveRequest L dest r s) = Inr f"
  shows "f = readReq L dest"
    and "files (snd (saveRequest L dest r s)) dest
           = Some (Request_wire L (Method r) (URL r) (header_of r s) (fst (read_all (Body r) s)))"
proof -
  from assms obtain fh where c: "fst (os_Create dest s) = Inr fh"
    and w: "fst (Request_Write L r fh (snd (os_Create dest s))) = None"
    and f: "f = readReq L (File_Name fh (snd (Request_Write L r fh (snd (os_Create dest s)))))"
    and sn: "snd (saveRequest L dest r s) = snd (Request_Write L r fh (snd (os_Create dest s)))"
    by (auto simp add: saveRequest_def case_prod_beta split: sum.splits option.splits)
  have n: "names fh dest (snd (os_Create dest s))" by (rule os_Create_new [OF c])
  then show "f = readReq L dest"
    unfolding f by (simp add: File_Name_names)
  from n have v: "fh < length (handles (snd (os_Create dest s)))" by (simp add: names_def)
  have "files (snd (Request_Write L r fh (snd (os_Create dest s)))) dest
          = Some (Request_wire L (Method r) (URL r) (header_of r (snd (os_Create dest s)))
                    (fst (read_all (Body r) (snd (os_Create dest s)))))"
    using v os_Create_offset [OF c] os_Create_new_file [OF c] w
    by (intro Request_Write_content) simp_all
  then show "files (snd (saveRequest L dest r s)) dest
           = Some (Request_wire L (Method r) (URL r) (header_of r s) (fst (read_all (Body r) s)))"
    unfolding sn by (simp add: header_of_def read_all_fst)
qed

lemma saveResponse_frame [simp]:
  "faults (snd (saveResponse L dest resp s)) = faults s"
  "heap (snd (saveResponse L dest resp s)) = heap s"
  "logs (snd (saveResponse L dest resp s)) = logs s"
  "calls (snd (saveResponse L dest resp s)) = calls s"
  "replays (snd (saveResponse L dest resp s)) = replays s"
  "names fh q s \<Longrightarrow> names fh q (snd (saveResponse L dest resp s))"
  by (simp_all add: saveResponse_def case_prod_beta split: sum.splits option.splits)

lemma saveResponse_other [simp]:
  "q \<noteq> dest \<Longrightarrow> files (snd (saveResponse L dest resp s)) q = files s q"
  by (auto simp add: saveResponse_def case_prod_beta dest!: os_Create_new split: sum.splits option.splits)

lemma saveResponse_None:
  "files (snd (saveResponse L dest resp s)) q = None \<Longrightarrow> files s q = None"
  by (simp add: saveResponse_def case_prod_beta os_Create_files
      split: sum.splits option.splits if_splits)

lemma saveResponse_keeps:
  assumes "files s q \<noteq> None"
  shows "files (snd (saveResponse L dest resp s)) q \<noteq> None"
proof
  assume "files (snd (saveResponse L dest resp s)) q = None"
  from saveResponse_None [OF this] assms show False by simp
qed

lemma saveResp_frame [simp]:
  "faults (snd (saveResp L base resp n s)) = faults s"
  "heap (snd (saveResp L base resp n s)) = heap s"
  "logs (snd (saveResp L base resp n s)) = logs s"
  "calls (snd (saveResp L base resp n s)) = calls s"
  "replays (snd (saveResp L base resp n s)) = replays s"
  "names fh q s \<Longrightarrow> names fh q (snd (saveResp L base resp n s))"
  by (simp_all add: saveResp_def)

lemma saveResp_other [simp]:
  "q \<noteq> base @ ''.'' @ Sprintf_d n \<Longrightarrow> files (snd (saveResp L base resp n s)) q = files s q"
  by (simp add: saveResp_def)

lemma saveResp_keeps:
  assumes "files s q \<noteq> None"
  shows "files (snd (saveResp L base resp n s)) q \<noteq> None"
proof (cases "n \<le> 0")
  case True
  with assms show ?thesis by (simp add: saveResp_def)
next
  case False
  with saveResponse_keeps [OF assms] show ?thesis by (simp add: saveResp_def del: not_None_eq)
qed

lemma answer_frame [simp]:
  "faults (snd (answer resp w s)) = faults s"
  "files (snd (answer resp w s)) = files s"
  "handles (snd (answer resp w s)) = handles s"
  "heap (snd (answer resp w s)) = heap s"
  "logs (snd (answer resp w s)) = logs s"
  "calls (snd (answer resp w s)) = calls s"
  "replays (snd (answer resp w s)) = replays s"
  by (simp_all add: answer_def case_prod_beta Let_def)

lemma saveRequestResponse_parts:
  "fst (saveRequestResponse L ds r s) = ds\<lparr>id_ds := id_ds ds + 1\<rparr>"
  "snd (snd (saveRequestResponse L ds r s))
     = snd (saveRequest L (base_path L ds (id_ds ds + 1) @ ''.0'') r s)"
  "fst (snd (saveRequestResponse L ds r s))
     = (case fst (saveRequest L (base_path L ds (id_ds ds + 1) @ ''.0'') r s) of
          Inl err \<Rightarrow> Inl err
        | Inr f \<Rightarrow> Inr (readReq L (base_path L ds (id_ds ds + 1) @ ''.0''),
                       saveResp L (base_path L ds (id_ds ds + 1))))"
  by (auto simp add: saveRequestResponse_def nextID_def base_path_def case_prod_beta Let_def
      saveRequest_Inr(1) split: sum.splits)


section \<open>Failure of the primary dispatch\<close>

lemma ServeHTTP_primary_fails:
  assumes pf: "\<forall>x. \<exists>m. primary ds x = Inl m" and w: "status_w w = 0"
  shows "\<exists>w' ds' s'. ServeHTTP L ds w r s = (w', ds', s', None) \<and>
           status_w w' = StatusInternalServerError \<and>
           (calls s' = calls s \<or>
            (\<exists>rq b e. calls s' = calls s @ [(Primary, rq, b)] \<and>
               body_w w' = body_w w @ ''call primary: '' @ e @ [CHR 0x0A]))"
proof -
  define p0 where "p0 = base_path L ds (id_ds ds + 1) @ ''.0''"
  define s1 where "s1 = snd (saveRequest L p0 r s)"
  note parts = saveRequestResponse_parts [of L ds r s, folded p0_def, folded s1_def]
  show ?thesis
  proof (cases "fst (saveRequest L p0 r s)")
    case (Inl err)
    then have "ServeHTTP L ds w r s =
        (http_Error w (''error saving request: '' @ Error_str err) StatusInternalServerError,
         ds\<lparr>id_ds := id_ds ds + 1\<rparr>,
         Log LvlCrit ''error saving request'' [(''error'', LErr err)] s1, None)"
      by (simp add: ServeHTTP_def case_prod_beta parts)
    then show ?thesis using w by (simp add: http_Error_status s1_def)
  next
    case (Inr f)
    show ?thesis
    proof (cases "fst (readReq L p0 s1)")
      case (Inl err)
      with Inr have "ServeHTTP L ds w r s =
        (http_Error w (''error reading request: '' @ Error_str err) StatusInternalServerError,
         ds\<lparr>id_ds := id_ds ds + 1\<rparr>,
         Log LvlError ''error reading request'' [(''error'', LErr err)] (snd (readReq L p0 s1)), None)"
        by (simp add: ServeHTTP_def case_prod_beta parts)
      then show ?thesis using w by (simp add: http_Error_status s1_def)
    next
      case r1: (Inr r1)
      define s2 where "s2 = snd (readReq L p0 s1)"
      from Client_Do_fails [OF pf, of Primary "r1\<lparr>RequestURI := []\<rparr>" s2]
      obtain e where e: "fst (Client_Do Primary (primary ds) (r1\<lparr>RequestURI := []\<rparr>) s2) = Inl (NetError e)"
        by blast
      with Inr r1 have "ServeHTTP L ds w r s =
        (http_Error w (''call primary: '' @ Error_str (NetError e)) StatusInternalServerError,
         ds\<lparr>id_ds := id_ds ds + 1\<rparr>,
         Log LvlError ''call primary'' [(''error'', LErr (NetError e))]
           (snd (Client_Do Primary (primary ds) (r1\<lparr>RequestURI := []\<rparr>) s2)), None)"
        by (simp add: ServeHTTP_def case_prod_beta parts s2_def)
      then show ?thesis using w
        by (simp add: http_Error_status http_Error_body Client_Do_calls s1_def s2_def)
    qed
  qed
qed


section \<open>Summaries of the functions of the reverse-proxy variant\<close>

lemma fold_keeps:
  assumes "\<And>x t. P (f x t) = P t"
  shows "P (fold f xs s) = P s"
  using assms by (induction xs arbitrary: s) simp_all

lemma respWriter_Header_parts [simp]:
  "WriteCloser (snd (respWriter_Header rw)) = WriteCloser rw"
  "w_rw (snd (respWriter_Header rw)) = w_rw rw"
  "status_rw (snd (respWriter_Header rw)) = status_rw rw"
  by (simp_all add: respWriter_Header_def split: option.splits)

lemma respWriter_Header_upd_parts [simp]:
  "WriteCloser (respWriter_Header_upd f rw) = WriteCloser rw"
  "status_rw (respWriter_Header_upd f rw) = status_rw rw"
  "w_rw (respWriter_Header_upd f rw) = map_option (\<lambda>cw. cw\<lparr>hdr_w := f (hdr_w cw)\<rparr>) (w_rw rw)"
  by (simp_all add: respWriter_Header_upd_def split: option.splits)

lemma header_lines_keeps:
  assumes "\<And>b t. P (snd (File_Write fh b t)) = P t"
  shows "P (fold (\<lambda>(k, vv) t. fold (\<lambda>v u. snd (File_Write fh (g k v) u)) vv t) h s) = P s"
proof (rule fold_keeps)
  fix x t
  show "P ((case x of (k, vv) \<Rightarrow> \<lambda>t. fold (\<lambda>v u. snd (File_Write fh (g k v) u)) vv t) t) = P t"
    by (cases x) (simp add: fold_keeps [where P = P] assms)
qed

lemma WriteHeader_rw [simp]:
  "WriteCloser (fst (respWriter_WriteHeader L st rw s)) = WriteCloser rw"
  "status_rw (fst (respWriter_WriteHeader L st rw s)) = st"
  "w_rw (fst (respWriter_WriteHeader L st rw s)) = map_option (W_WriteHeader st) (w_rw rw)"
  by (simp_all add: respWriter_WriteHeader_def Let_def case_prod_beta split: option.splits)

lemma WriteHeader_keeps:
  assumes "\<And>b t. P (snd (File_Write (WriteCloser rw) b t)) = P t"
  shows "P (snd (respWriter_WriteHeader L st rw s)) = P s"
  by (simp add: respWriter_WriteHeader_def Let_def case_prod_beta assms
      header_lines_keeps [where P = P] split: option.splits)

lemma WriteHeader_frame [simp]:
  "faults (snd (respWriter_WriteHeader L st rw s)) = faults s"
  "heap (snd (respWriter_WriteHeader L st rw s)) = heap s"
  "streams (snd (respWriter_WriteHeader L st rw s)) = streams s"
  "logs (snd (respWriter_WriteHeader L st rw s)) = logs s"
  "calls (snd (respWriter_WriteHeader L st rw s)) = calls s"
  "replays (snd (respWriter_WriteHeader L st rw s)) = replays s"
  "names fh q (snd (respWriter_WriteHeader L st rw s)) = names fh q s"
  "(files (snd (respWriter_WriteHeader L st rw s)) q = None) = (files s q = None)"
  by (rule WriteHeader_keeps, simp)+

lemma WriteHeader_other:
  assumes "names (WriteCloser rw) p s" and "q \<noteq> p"
  shows "files (snd (respWriter_WriteHeader L st rw s)) q = files s q"
proof -
  have "(names (WriteCloser rw) p (snd (respWriter_WriteHeader L st rw s)) \<and>
         files (snd (respWriter_WriteHeader L st rw s)) q = files s q)
        = (names (WriteCloser rw) p s \<and> files s q = files s q)"
    by (rule WriteHeader_keeps [where P = "\<lambda>t. names (WriteCloser rw) p t \<and> files t q = files s q"])
       (use assms(2) in auto)
  with assms show ?thesis by simp
qed

lemma Write_rw [simp]:
  "WriteCloser (fst (snd (respWriter_Write L p rw s))) = WriteCloser rw"
  "status_rw (fst (snd (respWriter_Write L p rw s))) = status_rw rw"
  by (simp_all add: respWriter_Write_def case_prod_beta split: option.splits)

lemma Write_frame [simp]:
  "faults (snd (snd (respWriter_Write L p rw s))) = faults s"
  "heap (snd (snd (respWriter_Write L p rw s))) = heap s"
  "streams (snd (snd (respWriter_Write L p rw s))) = streams s"
  "logs (snd (snd (respWriter_Write L p rw s))) = logs s"
  "calls (snd (snd (respWriter_Write L p rw s))) = calls s"
  "replays (snd (snd (respWriter_Write L p rw s))) = replays s"
  "names fh q (snd (snd (respWriter_Write L p rw s))) = names fh q s"
  "(files (snd (snd (respWriter_Write L p rw s))) q = None) = (files s q = None)"
  by (simp_all add: respWriter_Write_def case_prod_beta split: option.splits)

lemma Write_other:
  assumes "names (WriteCloser rw) p s" and "q \<noteq> p"
  shows "files (snd (snd (respWriter_Write L b rw s))) q = files s q"
  using assms
  by (simp add: respWriter_Write_def case_prod_beta WriteHeader_other [where p = p]
      File_Write_other [where p = p] split: option.splits)


lemma header_of_upd [simp]:
  "header_of r (s\<lparr>calls := cs\<rparr>) = header_of r s"
  "header_of r (s\<lparr>logs := lg\<rparr>) = header_of r s"
  "header_of r (snd (read_all i s)) = header_of r s"
  "header_of r (Log l m c s) = header_of r s"
  by (simp_all add: header_of_def)

lemma RP_rw [simp]:
  "WriteCloser (fst (ReverseProxy_ServeHTTP L tag be rw r s)) = WriteCloser rw"
  by (simp add: ReverseProxy_ServeHTTP_def case_prod_beta Let_def split: sum.splits)

lemma RP_status:
  "status_rw (fst (ReverseProxy_ServeHTTP L tag be rw r s)) =
     (case be (Method r, URL r, header_of r s, fst (read_all (Body r) s)) of
        Inl m \<Rightarrow> proxyErrStatus L
      | Inr x \<Rightarrow> fst x)"
  by (simp add: ReverseProxy_ServeHTTP_def case_prod_beta Let_def split: sum.splits)

lemma RP_frame [simp]:
  "faults (snd (ReverseProxy_ServeHTTP L tag be rw r s)) = faults s"
  "heap (snd (ReverseProxy_ServeHTTP L tag be rw r s)) = heap s"
  "replays (snd (ReverseProxy_ServeHTTP L tag be rw r s)) = replays s"
  "streams (snd (ReverseProxy_ServeHTTP L tag be rw r s)) = (streams s)[Body r := []]"
  "names fh q (snd (ReverseProxy_ServeHTTP L tag be rw r s)) = names fh q s"
  "(files (snd (ReverseProxy_ServeHTTP L tag be rw r s)) q = None) = (files s q = None)"
  by (simp_all add: ReverseProxy_ServeHTTP_def case_prod_beta Let_def split: sum.splits)

lemma RP_calls [simp]:
  "calls (snd (ReverseProxy_ServeHTTP L tag be rw r s))
     = calls s @ [(tag, r, fst (read_all (Body r) s))]"
  by (simp add: ReverseProxy_ServeHTTP_def case_prod_beta Let_def split: sum.splits)

lemma RP_logs:
  "logs (snd (ReverseProxy_ServeHTTP L tag be rw r s)) =
     logs s @ (case be (Method r, URL r, header_of r s, fst (read_all (Body r) s)) of
                 Inl m \<Rightarrow> [(LvlError, ''http: proxy error'', [(''error'', LStr m)])]
               | Inr x \<Rightarrow> [])"
  by (simp add: ReverseProxy_ServeHTTP_def case_prod_beta Let_def split: sum.splits)

lemma RP_other:
  assumes "names (WriteCloser rw) p s" and "q \<noteq> p"
  shows "files (snd (ReverseProxy_ServeHTTP L tag be rw r s)) q = files s q"
  using assms
  by (simp add: ReverseProxy_ServeHTTP_def case_prod_beta Let_def
      WriteHeader_other [where p = p] Write_other [where p = p] split: sum.splits)

lemma RP_caller_error:
  assumes "be (Method r, URL r, header_of r s, fst (read_all (Body r) s)) = Inl m"
    and "w_rw rw = Some cw" and "status_w cw = 0"
  shows "\<exists>cw'. w_rw (fst (ReverseProxy_ServeHTTP L tag be rw r s)) = Some cw' \<and>
               status_w cw' = proxyErrStatus L"
  using assms
  by (simp add: ReverseProxy_ServeHTTP_def case_prod_beta Let_def W_WriteHeader_def)

lemma writeRequest_frame [simp]:
  "faults (snd (writeRequest L dest r s)) = faults s"
  "heap (snd (writeRequest L dest r s)) = heap s"
  "logs (snd (writeRequest L dest r s)) = logs s"
  "calls (snd (writeRequest L dest r s)) = calls s"
  "replays (snd (writeRequest L dest r s)) = replays s"
  "length (streams (snd (writeRequest L dest r s))) = length (streams s)"
  "names fh q s \<Longrightarrow> names fh q (snd (writeRequest L dest r s))"
  by (simp_all add: writeRequest_def case_prod_beta split: sum.splits option.splits)

lemma writeRequest_other [simp]:
  "q \<noteq> dest \<Longrightarrow> files (snd (writeRequest L dest r s)) q = files s q"
  by (auto simp add: writeRequest_def case_prod_beta dest!: os_Create_new split: sum.splits option.splits)

lemma writeRequest_None:
  assumes "fst (writeRequest L dest r s) = None"
  shows "files (snd (writeRequest L dest r s)) dest
           = Some (Request_wire L (Method r) (URL r) (header_of r s) (fst (read_all (Body r) s)))"
proof -
  from assms obtain fh where c: "fst (os_Create dest s) = Inr fh"
    and w: "fst (Request_Write L r fh (snd (os_Create dest s))) = None"
    and sn: "snd (writeRequest L dest r s) = snd (Request_Write L r fh (snd (os_Create dest s)))"
    by (auto simp add: writeRequest_def case_prod_beta split: sum.splits option.splits)
  from os_Create_new [OF c] have v: "fh < length (handles (snd (os_Create dest s)))"
    by (simp add: names_def)
  have "files (snd (Request_Write L r fh (snd (os_Create dest s)))) dest
          = Some (Request_wire L (Method r) (URL r) (header_of r (snd (os_Create dest s)))
                    (fst (read_all (Body r) (snd (os_Create dest s)))))"
    using v os_Create_offset [OF c] os_Create_new_file [OF c] w
    by (intro Request_Write_content) simp_all
  then show ?thesis
    unfolding sn by (simp add: header_of_def read_all_fst)
qed


subsection \<open>The replay loop\<close>

lemma replay_loop_Cons:
  "replay_loop L base reqFn (i # is) rqs rws s =
     (case fst (readReq L reqFn s) of
        Inl err \<Rightarrow> ((rqs, rws, Some err), snd (readReq L reqFn s))
      | Inr rq \<Rightarrow>
          (case fst (os_Create (base @ ''.'' @ Sprintf_d (int i + 1)) (snd (readReq L reqFn s))) of
             Inl err \<Rightarrow> ((rqs @ [rq], rws, Some err),
                         snd (os_Create (base @ ''.'' @ Sprintf_d (int i + 1)) (snd (readReq L reqFn s))))
           | Inr wc \<Rightarrow>
               replay_loop L base reqFn is (rqs @ [rq])
                 (rws @ [\<lparr>WriteCloser = wc, w_rw = None, h_rw = None, status_rw = 0\<rparr>])
                 (snd (os_Create (base @ ''.'' @ Sprintf_d (int i + 1)) (snd (readReq L reqFn s))))))"
  by (simp add: readReq_def case_prod_beta split: sum.splits)

lemma replay_loop_frame [simp]:
  "faults (snd (replay_loop L base reqFn is rqs rws s)) = faults s"
  "logs (snd (replay_loop L base reqFn is rqs rws s)) = logs s"
  "calls (snd (replay_loop L base reqFn is rqs rws s)) = calls s"
proof (induction "is" arbitrary: rqs rws s)
  case Nil
  {
    case 1 show ?case by simp
  next
    case 2 show ?case by simp
  next
    case 3 show ?case by simp
  }
next
  case (Cons i "is")
  {
    case 1 show ?case by (simp add: replay_loop_Cons Cons.IH(1) split: sum.splits del: replay_loop.simps)
  next
    case 2 show ?case by (simp add: replay_loop_Cons Cons.IH(2) split: sum.splits del: replay_loop.simps)
  next
    case 3 show ?case by (simp add: replay_loop_Cons Cons.IH(3) split: sum.splits del: replay_loop.simps)
  }
qed

lemma replay_loop_names [simp]:
  "names fh q s \<Longrightarrow> names fh q (snd (replay_loop L base reqFn is rqs rws s))"
proof (induction "is" arbitrary: rqs rws s)
  case Nil
  then show ?case by simp
next
  case (Cons i "is")
  then show ?case
    by (simp add: replay_loop_Cons split: sum.splits del: replay_loop.simps)
qed

lemma replay_loop_other:
  "q \<notin> (\<lambda>i. base @ ''.'' @ Sprintf_d (int i + 1)) ` set is \<Longrightarrow>
   files (snd (replay_loop L base reqFn is rqs rws s)) q = files s q"
proof (induction "is" arbitrary: rqs rws s)
  case Nil
  then show ?case by simp
next
  case (Cons i "is")
  then have a: "q \<noteq> base @ ''.'' @ Sprintf_d (int i + 1)"
    and b: "q \<notin> (\<lambda>i. base @ ''.'' @ Sprintf_d (int i + 1)) ` set is"
    by auto
  show ?case
    using a by (simp add: replay_loop_Cons Cons.IH [OF b] split: sum.splits del: replay_loop.simps)
qed

text \<open>When the loop ends without an error, it has made one request object and one
  response writer for every index; each writer's file handle is open on the file of
  its slot, and the writer is blank.\<close>

lemma replay_loop_None:
  assumes "snd (snd (fst (replay_loop L base reqFn is rqs rws s))) = None"
  shows "\<exists>nrq nrw. fst (fst (replay_loop L base reqFn is rqs rws s)) = rqs @ nrq \<and>
           fst (snd (fst (replay_loop L base reqFn is rqs rws s))) = rws @ nrw \<and>
           length nrq = length is \<and> length nrw = length is \<and>
           (\<forall>j < length is.
              names (WriteCloser (nrw ! j)) (base @ ''.'' @ Sprintf_d (int (is ! j) + 1))
                (snd (replay_loop L base reqFn is rqs rws s)) \<and>
              w_rw (nrw ! j) = None \<and> h_rw (nrw ! j) = None \<and> status_rw (nrw ! j) = 0)"
  using assms
proof (induction "is" arbitrary: rqs rws s)
  case Nil
  then show ?case by simp
next
  case (Cons i "is")
  let ?p = "base @ ''.'' @ Sprintf_d (int i + 1)"
  let ?s1 = "snd (readReq L reqFn s)"
  let ?s2 = "snd (os_Create ?p ?s1)"
  from Cons.prems obtain rq wc where rq: "fst (readReq L reqFn s) = Inr rq"
    and wc: "fst (os_Create ?p ?s1) = Inr wc"
    by (auto simp add: replay_loop_Cons split: sum.splits simp del: replay_loop.simps)
  define w where "w = \<lparr>WriteCloser = wc, w_rw = None, h_rw = None, status_rw = 0\<rparr>"
  have eq: "replay_loop L base reqFn (i # is) rqs rws s
              = replay_loop L base reqFn is (rqs @ [rq]) (rws @ [w]) ?s2"
    using rq wc by (simp add: replay_loop_Cons w_def del: replay_loop.simps)
  from Cons.prems have "snd (snd (fst (replay_loop L base reqFn is (rqs @ [rq]) (rws @ [w]) ?s2))) = None"
    unfolding eq .
  from Cons.IH [OF this] obtain nrq nrw where
    a: "fst (fst (replay_loop L base reqFn is (rqs @ [rq]) (rws @ [w]) ?s2)) = (rqs @ [rq]) @ nrq"
    and b: "fst (snd (fst (replay_loop L base reqFn is (rqs @ [rq]) (rws @ [w]) ?s2))) = (rws @ [w]) @ nrw"
    and l: "length nrq = length is" "length nrw = length is"
    and n: "\<forall>j < length is.
              names (WriteCloser (nrw ! j)) (base @ ''.'' @ Sprintf_d (int (is ! j) + 1))
                (snd (replay_loop L base reqFn is (rqs @ [rq]) (rws @ [w]) ?s2)) \<and>
              w_rw (nrw ! j) = None \<and> h_rw (nrw ! j) = None \<and> status_rw (nrw ! j) = 0"
    by blast
  have nw: "names wc ?p (snd (replay_loop L base reqFn is (rqs @ [rq]) (rws @ [w]) ?s2))"
    by (intro replay_loop_names os_Create_new wc)
  have "\<forall>j < length (i # is).
          names (WriteCloser ((w # nrw) ! j)) (base @ ''.'' @ Sprintf_d (int ((i # is) ! j) + 1))
            (snd (replay_loop L base reqFn (i # is) rqs rws s)) \<and>
          w_rw ((w # nrw) ! j) = None \<and> h_rw ((w # nrw) ! j) = None \<and> status_rw ((w # nrw) ! j) = 0"
  proof (intro allI impI)
    fix j assume j: "j < length (i # is)"
    show "names (WriteCloser ((w # nrw) ! j)) (base @ ''.'' @ Sprintf_d (int ((i # is) ! j) + 1))
            (snd (replay_loop L base reqFn (i # is) rqs rws s)) \<and>
          w_rw ((w # nrw) ! j) = None \<and> h_rw ((w # nrw) ! j) = None \<and> status_rw ((w # nrw) ! j) = 0"
    proof (cases j)
      case 0
      then show ?thesis using nw unfolding eq by (simp add: w_def)
    next
      case (Suc j')
      with j have "j' < length is" by simp
      with n Suc show ?thesis unfolding eq by simp
    qed
  qed
  moreover have "fst (fst (replay_loop L base reqFn (i # is) rqs rws s)) = rqs @ (rq # nrq)"
    unfolding eq a by simp
  moreover have "fst (snd (fst (replay_loop L base reqFn (i # is) rqs rws s))) = rws @ (w # nrw)"
    unfolding eq b by simp
  ultimately show ?case
    using l by (intro exI [of _ "rq # nrq"] exI [of _ "w # nrw"]) simp
qed


subsection \<open>The handler and the goroutine of the variant\<close>

lemma saveRequestResponse_rp_parts:
  "fst (saveRequestResponse_rp L ds r n s) = ds\<lparr>id_ds := id_ds ds + 1\<rparr>"
  "fst (snd (saveRequestResponse_rp L ds r n s)) =
     (case fst (writeRequest L (base_path L ds (id_ds ds + 1) @ ''.0'') r s) of
        Some err \<Rightarrow> ([], [], Some err)
      | None \<Rightarrow> fst (replay_loop L (base_path L ds (id_ds ds + 1))
                       (base_path L ds (id_ds ds + 1) @ ''.0'') [0..<n] [] []
                       (snd (writeRequest L (base_path L ds (id_ds ds + 1) @ ''.0'') r s))))"
  "snd (snd (saveRequestResponse_rp L ds r n s)) =
     (case fst (writeRequest L (base_path L ds (id_ds ds + 1) @ ''.0'') r s) of
        Some err \<Rightarrow> snd (writeRequest L (base_path L ds (id_ds ds + 1) @ ''.0'') r s)
      | None \<Rightarrow> snd (replay_loop L (base_path L ds (id_ds ds + 1))
                       (base_path L ds (id_ds ds + 1) @ ''.0'') [0..<n] [] []
                       (snd (writeRequest L (base_path L ds (id_ds ds + 1) @ ''.0'') r s))))"
  by (simp_all add: saveRequestResponse_rp_def nextID_def base_path_def case_prod_beta Let_def
      split: option.splits)

lemma saveRequestResponse_rp_calls [simp]:
  "calls (snd (snd (saveRequestResponse_rp L ds r n s))) = calls s"
  by (simp add: saveRequestResponse_rp_parts split: option.splits)

lemma removes_keep:
  assumes "\<And>p t. P (snd (os_Remove p t)) = P t"
  shows "P (fold (\<lambda>i t. snd (os_Remove (g i) t)) xs s) = P s"
  by (rule fold_keeps) (rule assms)

lemma secondary_go_rp_calls:
  "calls (secondary_go_rp L ds w r sc s) = calls s @ [(Secondary, r, fst (read_all (Body r) s))]"
  by (simp add: secondary_go_rp_def case_prod_beta Let_def removes_keep [where P = calls])

text \<open>The handler of the variant, once the capture and the replay loop have
  succeeded.\<close>

lemma ServeHTTP_rp_Some:
  assumes "ServeHTTP_rp L ds w r s = (w', ds', s', Some task)"
  shows "\<exists>r0 r1 w0 w1 s1.
           fst (snd (saveRequestResponse_rp L ds r 2 s)) = ([r0, r1], [w0, w1], None) \<and>
           s1 = Log LvlDebug ''request 1'' [(''req'', LStr (Method r0 @ '' '' @ URL r0))]
                  (snd (snd (saveRequestResponse_rp L ds r 2 s))) \<and>
           ds' = ds\<lparr>id_ds := id_ds ds + 1\<rparr> \<and>
           s' = snd (ReverseProxy_ServeHTTP L Primary (primary ds) (w0\<lparr>w_rw := Some w\<rparr>) r0 s1) \<and>
           w' = (case w_rw (fst (ReverseProxy_ServeHTTP L Primary (primary ds) (w0\<lparr>w_rw := Some w\<rparr>) r0 s1)) of
                   Some cw \<Rightarrow> cw | None \<Rightarrow> w) \<and>
           task = secondary_go_rp L ds' w1 r1
                    (status_rw (fst (ReverseProxy_ServeHTTP L Primary (primary ds) (w0\<lparr>w_rw := Some w\<rparr>) r0 s1)))"
proof -
  obtain rqs rws err where res: "fst (snd (saveRequestResponse_rp L ds r 2 s)) = (rqs, rws, err)"
    by (cases "fst (snd (saveRequestResponse_rp L ds r 2 s))") auto
  have ds1: "fst (saveRequestResponse_rp L ds r 2 s) = ds\<lparr>id_ds := id_ds ds + 1\<rparr>"
    by (rule saveRequestResponse_rp_parts)
  from assms res ds1 show ?thesis
    by (auto simp add: ServeHTTP_rp_def case_prod_beta Let_def
        split: option.splits list.splits)
qed

section \<open>Failure of the primary dispatch, both variants\<close>

lemma ServeHTTP_rp_primary_fails:
  assumes pf: "\<forall>x. \<exists>m. primary ds x = Inl m" and w: "status_w w = 0"
    and run: "ServeHTTP_rp L ds w r s = (w', ds', s', Some task)"
  shows "status_w w' = proxyErrStatus L \<and> (\<exists>rq b. calls (task s') = calls s' @ [(Secondary, rq, b)])"
proof -
  from ServeHTTP_rp_Some [OF run] obtain r0 r1 w0 w1 s1 where
    s': "s' = snd (ReverseProxy_ServeHTTP L Primary (primary ds) (w0\<lparr>w_rw := Some w\<rparr>) r0 s1)"
    and w': "w' = (case w_rw (fst (ReverseProxy_ServeHTTP L Primary (primary ds) (w0\<lparr>w_rw := Some w\<rparr>) r0 s1)) of
                   Some cw \<Rightarrow> cw | None \<Rightarrow> w)"
    and task: "task = secondary_go_rp L ds' w1 r1
                    (status_rw (fst (ReverseProxy_ServeHTTP L Primary (primary ds) (w0\<lparr>w_rw := Some w\<rparr>) r0 s1)))"
    by blast
  from pf obtain m where
    m: "primary ds (Method r0, URL r0, header_of r0 s1, fst (read_all (Body r0) s1)) = Inl m"
    by blast
  have "\<exists>cw'. w_rw (fst (ReverseProxy_ServeHTTP L Primary (primary ds) (w0\<lparr>w_rw := Some w\<rparr>) r0 s1)) = Some cw' \<and>
               status_w cw' = proxyErrStatus L"
    by (rule RP_caller_error [where be = "primary ds" and r = r0 and s = s1 and m = m and cw = w])
       (simp_all add: m w)
  then have "status_w w' = proxyErrStatus L"
    unfolding w' by auto
  moreover have "calls (task s') = calls s' @ [(Secondary, r1, fst (read_all (Body r1) s'))]"
    unfolding task by (rule secondary_go_rp_calls)
  ultimately show ?thesis by blast
qed


text \<open>
  C1, as stated, fails. With an unreachable primary the handler of \<^verbatim>\<open>main.go\<close> answers
  the caller with status 500, which is neither 502 nor 504; and in the reverse-proxy
  variant the exchange still dispatches the request to the secondary backend.
\<close>

theorem primary_failure_counterexample:
  "status_w (fst (ServeHTTP lib0 (server0\<lparr>primary := unreachable\<rparr>) writer0 req0 world0)) = 500 \<and>
   (500 :: int) \<noteq> StatusBadGateway \<and> (500 :: int) \<noteq> StatusGatewayTimeout \<and>
   map fst (calls (snd (snd (exchange_rp lib0 (server0\<lparr>primary := unreachable\<rparr>) writer0 req0 world0))))
     = [Primary, Secondary]"
  by code_simp

text \<open>
  C1, amended. For every exchange in which the dispatch to the primary backend fails:
  the handler of \<^verbatim>\<open>main.go\<close> answers the caller with status 500 (with the message
  \<^verbatim>\<open>call primary: ...\<close> and the failure detail once the dispatch has been reached),
  starts no goroutine, and no request reaches the secondary backend; the handler of the
  reverse-proxy variant leaves the caller with the error status the reverse proxy
  writes, and its goroutine then dispatches the request to the secondary backend all
  the same.
\<close>

theorem primary_failure:
  assumes "\<forall>x. \<exists>m. primary ds x = Inl m" and "status_w w = 0"
  shows "(\<exists>w' ds' s'. ServeHTTP L ds w r s = (w', ds', s', None) \<and>
            status_w w' = StatusInternalServerError \<and>
            (calls s' = calls s \<or>
             (\<exists>rq b e. calls s' = calls s @ [(Primary, rq, b)] \<and>
                body_w w' = body_w w @ ''call primary: '' @ e @ [CHR 0x0A]))) \<and>
         (\<forall>w' ds' s' task. ServeHTTP_rp L ds w r s = (w', ds', s', Some task) \<longrightarrow>
            status_w w' = proxyErrStatus L \<and>
            (\<exists>rq b. calls (task s') = calls s' @ [(Secondary, rq, b)]))"
  using ServeHTTP_primary_fails [OF assms] ServeHTTP_rp_primary_fails [OF assms]
  by blast

theorem primary_failure_witness:
  "(\<exists>w' ds' s'. ServeHTTP lib0 (server0\<lparr>primary := unreachable\<rparr>) writer0 req0 world0
                   = (w', ds', s', None) \<and>
      status_w w' = 500 \<and>
      (calls s' = [] \<or>
       (\<exists>rq b e. calls s' = [(Primary, rq, b)] \<and> body_w w' = ''call primary: '' @ e @ [CHR 0x0A]))) \<and>
   (\<exists>w' ds' s' task. ServeHTTP_rp lib0 (server0\<lparr>primary := unreachable\<rparr>) writer0 req0 world0
                   = (w', ds', s', Some task) \<and>
      status_w w' = 500 \<and>
      (\<exists>rq b. calls (task s') = calls s' @ [(Secondary, rq, b)]))"
proof -
  let ?ds = "server0\<lparr>primary := unreachable\<rparr>"
  have h1: "\<forall>x. \<exists>m. primary ?ds x = Inl m" by (simp add: unreachable_def)
  have h2: "status_w writer0 = 0" by (simp add: writer0_def)
  note T = primary_failure [OF h1 h2, of lib0 req0 world0]
  have "snd (snd (snd (ServeHTTP_rp lib0 ?ds writer0 req0 world0))) \<noteq> None"
    by code_simp
  then obtain w' ds' s' task where
    run: "ServeHTTP_rp lib0 ?ds writer0 req0 world0 = (w', ds', s', Some task)"
    by (cases "ServeHTTP_rp lib0 ?ds writer0 req0 world0") auto
  with T have "status_w w' = proxyErrStatus lib0 \<and>
      (\<exists>rq b. calls (task s') = calls s' @ [(Secondary, rq, b)])"
    by blast
  with run have B: "\<exists>w' ds' s' task. ServeHTTP_rp lib0 ?ds writer0 req0 world0
                   = (w', ds', s', Some task) \<and>
      status_w w' = 500 \<and>
      (\<exists>rq b. calls (task s') = calls s' @ [(Secondary, rq, b)])"
    by (simp add: lib0_def)
  from T have A: "\<exists>w' ds' s'. ServeHTTP lib0 ?ds writer0 req0 world0 = (w', ds', s', None) \<and>
      status_w w' = 500 \<and>
      (calls s' = [] \<or>
       (\<exists>rq b e. calls s' = [(Primary, rq, b)] \<and> body_w w' = ''call primary: '' @ e @ [CHR 0x0A]))"
    by (simp add: StatusInternalServerError_def world0_def writer0_def)
  from A B show ?thesis by blast
qed


section \<open>Capture failure\<close>

lemma saveRequest_fault:
  assumes "(OpCreate, p) \<in> faults s \<or> (OpWrite, p) \<in> faults s \<or> (OpClose, p) \<in> faults s"
  shows "\<exists>err s1. saveRequest L p r s = (Inl err, s1) \<and> calls s1 = calls s \<and> (\<exists>opn. err = PathError opn p)"
  using assms
  apply (simp add: saveRequest_def os_Create_def Request_Write_def File_Write_def File_Close_def
      read_all_def nth_append split: prod.splits option.splits)
  apply auto
  done


lemma writeRequest_fault:
  assumes "(OpCreate, p) \<in> faults s \<or> (OpWrite, p) \<in> faults s \<or> (OpClose, p) \<in> faults s"
  shows "\<exists>err s1. writeRequest L p r s = (Some err, s1) \<and> calls s1 = calls s \<and> (\<exists>opn. err = PathError opn p)"
  using assms
  apply (simp add: writeRequest_def os_Create_def Request_Write_def File_Write_def File_Close_def
      read_all_def nth_append split: prod.splits option.splits)
  apply auto
  done

text \<open>
  C5: when the capture of the inbound request fails with an I/O error (creating,
  writing or closing the file \<open>N.0\<close> fails), the handler of either variant answers
  the caller with status 500 and the message \<^verbatim>\<open>error saving request: ...\<close>, starts no
  goroutine and returns with the trace of backend calls unchanged: neither backend is
  dispatched.
\<close>

theorem capture_failure_aborts:
  assumes p: "p = filepath_Join L (dir ds) (Sprintf_09d (unat (id_ds ds + 1))) @ ''.0''"
    and f: "(OpCreate, p) \<in> faults s \<or> (OpWrite, p) \<in> faults s \<or> (OpClose, p) \<in> faults s"
    and w: "status_w w = 0"
  shows "(\<exists>w' ds' s' err. ServeHTTP L ds w r s = (w', ds', s', None) \<and>
            status_w w' = StatusInternalServerError \<and>
            body_w w' = body_w w @ ''error saving request: '' @ Error_str err @ [CHR 0x0A] \<and>
            calls s' = calls s) \<and>
         (\<exists>w' ds' s' err. ServeHTTP_rp L ds w r s = (w', ds', s', None) \<and>
            status_w w' = StatusInternalServerError \<and>
            body_w w' = body_w w @ ''error saving request: '' @ Error_str err @ [CHR 0x0A] \<and>
            calls s' = calls s)"
proof
  from saveRequest_fault [OF f, of L r] obtain err s1 where
    sr: "saveRequest L p r s = (Inl err, s1)" and c: "calls s1 = calls s" by blast
  have "ServeHTTP L ds w r s =
          (http_Error w (''error saving request: '' @ Error_str err) StatusInternalServerError,
           ds\<lparr>id_ds := id_ds ds + 1\<rparr>,
           Log LvlCrit ''error saving request'' [(''error'', LErr err)] s1, None)"
    using sr by (simp add: ServeHTTP_def saveRequestResponse_def nextID_def base_path_def p)
  then show "\<exists>w' ds' s' err. ServeHTTP L ds w r s = (w', ds', s', None) \<and>
            status_w w' = StatusInternalServerError \<and>
            body_w w' = body_w w @ ''error saving request: '' @ Error_str err @ [CHR 0x0A] \<and>
            calls s' = calls s"
    using c w by (auto simp add: http_Error_status http_Error_body)
next
  from writeRequest_fault [OF f, of L r] obtain err s1 where
    sr: "writeRequest L p r s = (Some err, s1)" and c: "calls s1 = calls s" by blast
  have "ServeHTTP_rp L ds w r s =
          (http_Error w (''error saving request: '' @ Error_str err) StatusInternalServerError,
           ds\<lparr>id_ds := id_ds ds + 1\<rparr>,
           Log LvlCrit ''error saving request'' [(''error'', LErr err)] s1, None)"
    using sr by (simp add: ServeHTTP_rp_def saveRequestResponse_rp_def nextID_def base_path_def p)
  then show "\<exists>w' ds' s' err. ServeHTTP_rp L ds w r s = (w', ds', s', None) \<and>
            status_w w' = StatusInternalServerError \<and>
            body_w w' = body_w w @ ''error saving request: '' @ Error_str err @ [CHR 0x0A] \<and>
            calls s' = calls s"
    using c w by (auto simp add: http_Error_status http_Error_body)
qed

theorem capture_failure_aborts_witness:
  "(\<exists>w' ds' s' err.
      ServeHTTP lib0 server0 writer0 req0 (world0\<lparr>faults := {(OpWrite, ''reqlog/000000001.0'')}\<rparr>)
        = (w', ds', s', None) \<and>
      status_w w' = 500 \<and>
      body_w w' = ''error saving request: '' @ Error_str err @ [CHR 0x0A] \<and> calls s' = []) \<and>
   (\<exists>w' ds' s' err.
      ServeHTTP_rp lib0 server0 writer0 req0 (world0\<lparr>faults := {(OpWrite, ''reqlog/000000001.0'')}\<rparr>)
        = (w', ds', s', None) \<and>
      status_w w' = 500 \<and>
      body_w w' = ''error saving request: '' @ Error_str err @ [CHR 0x0A] \<and> calls s' = [])"
proof -
  have p: "''reqlog/000000001.0'' =
      filepath_Join lib0 (dir server0) (Sprintf_09d (unat (id_ds server0 + 1))) @ ''.0''"
    by (simp add: lib0_def server0_def newDualServer_def Sprintf_09d_Suc0)
  have f: "(OpCreate, ''reqlog/000000001.0'') \<in> faults (world0\<lparr>faults := {(OpWrite, ''reqlog/000000001.0'')}\<rparr>) \<or>
           (OpWrite, ''reqlog/000000001.0'') \<in> faults (world0\<lparr>faults := {(OpWrite, ''reqlog/000000001.0'')}\<rparr>) \<or>
           (OpClose, ''reqlog/000000001.0'') \<in> faults (world0\<lparr>faults := {(OpWrite, ''reqlog/000000001.0'')}\<rparr>)"
    by simp
  have w: "status_w writer0 = 0" by (simp add: writer0_def)
  from capture_failure_aborts [OF p f w, of req0] show ?thesis
    by (simp add: world0_def writer0_def StatusInternalServerError_def)
qed


section \<open>Failure to persist the primary response (\<^verbatim>\<open>main.go\<close>)\<close>



section \<open>The handler of \<^verbatim>\<open>main.go\<close>, branch by branch\<close>

lemma Sprintf_d_small [simp]:
  "Sprintf_d 0 = ''0''" "Sprintf_d 1 = ''1''" "Sprintf_d 2 = ''2''"
  by (simp_all add: Sprintf_d_def decimal.simps)

lemma ServeHTTP_run:
  fixes L ds w r s
  defines "base \<equiv> base_path L ds (id_ds ds + 1)"
  defines "ds1 \<equiv> ds\<lparr>id_ds := id_ds ds + 1\<rparr>"
  defines "s1 \<equiv> snd (saveRequest L (base @ ''.0'') r s)"
  defines "s2 \<equiv> snd (readReq L (base @ ''.0'') s1)"
  shows
   "(\<exists>err. fst (saveRequest L (base @ ''.0'') r s) = Inl err \<and>
       ServeHTTP L ds w r s =
         (http_Error w (''error saving request: '' @ Error_str err) StatusInternalServerError,
          ds1, Log LvlCrit ''error saving request'' [(''error'', LErr err)] s1, None)) \<or>
    (\<exists>f err. fst (saveRequest L (base @ ''.0'') r s) = Inr f \<and>
       fst (readReq L (base @ ''.0'') s1) = Inl err \<and>
       ServeHTTP L ds w r s =
         (http_Error w (''error reading request: '' @ Error_str err) StatusInternalServerError,
          ds1, Log LvlError ''error reading request'' [(''error'', LErr err)] s2, None)) \<or>
    (\<exists>f r1 err. fst (saveRequest L (base @ ''.0'') r s) = Inr f \<and>
       fst (readReq L (base @ ''.0'') s1) = Inr r1 \<and>
       fst (Client_Do Primary (primary ds) (r1\<lparr>RequestURI := []\<rparr>) s2) = Inl err \<and>
       ServeHTTP L ds w r s =
         (http_Error w (''call primary: '' @ Error_str err) StatusInternalServerError,
          ds1, Log LvlError ''call primary'' [(''error'', LErr err)]
                 (snd (Client_Do Primary (primary ds) (r1\<lparr>RequestURI := []\<rparr>) s2)), None)) \<or>
    (\<exists>f r1 resp1 rx sx. fst (saveRequest L (base @ ''.0'') r s) = Inr f \<and>
       fst (readReq L (base @ ''.0'') s1) = Inr r1 \<and>
       fst (Client_Do Primary (primary ds) (r1\<lparr>RequestURI := []\<rparr>) s2) = Inr resp1 \<and>
       (rx, sx) =
         (case fst (saveResp L base resp1 1 (snd (Client_Do Primary (primary ds) (r1\<lparr>RequestURI := []\<rparr>) s2))) of
            Inl err \<Rightarrow> (resp1, Log LvlError ''save response1'' [(''error'', LErr err)]
                               (snd (saveResp L base resp1 1 (snd (Client_Do Primary (primary ds) (r1\<lparr>RequestURI := []\<rparr>) s2)))))
          | Inr resp \<Rightarrow> (resp, snd (saveResp L base resp1 1 (snd (Client_Do Primary (primary ds) (r1\<lparr>RequestURI := []\<rparr>) s2))))) \<and>
       ServeHTTP L ds w r s =
         (fst (answer rx w sx), ds1, snd (answer rx w sx),
          Some (secondary_go ds1 (readReq L (base @ ''.0'')) (saveResp L base) (StatusCode resp1))))"
proof -
  note parts = saveRequestResponse_parts [of L ds r s, folded base_def, folded s1_def]
  show ?thesis
  proof (cases "fst (saveRequest L (base @ ''.0'') r s)")
    case (Inl err)
    then show ?thesis
      by (simp add: ServeHTTP_def case_prod_beta parts ds1_def)
  next
    case (Inr f)
    show ?thesis
    proof (cases "fst (readReq L (base @ ''.0'') s1)")
      case (Inl err)
      with Inr show ?thesis
        by (simp add: ServeHTTP_def case_prod_beta parts ds1_def s2_def)
    next
      case r1: (Inr r1)
      show ?thesis
      proof (cases "fst (Client_Do Primary (primary ds) (r1\<lparr>RequestURI := []\<rparr>) s2)")
        case (Inl err)
        with Inr r1 show ?thesis
          by (simp add: ServeHTTP_def case_prod_beta parts ds1_def s2_def)
      next
        case resp1: (Inr resp1)
        with Inr r1 show ?thesis
          by (simp add: ServeHTTP_def case_prod_beta parts ds1_def s2_def Let_def
              split: sum.splits)
      qed
    qed
  qed
qed


section \<open>Names of the artifacts\<close>

lemma digit_value: "d < 10 \<Longrightarrow> of_char (''0123456789'' ! d) = (48 + d :: nat)"
proof -
  assume "d < 10"
  then consider "d = 0" | "d = 1" | "d = 2" | "d = 3" | "d = 4" | "d = 5" | "d = 6" | "d = 7"
    | "d = 8" | "d = 9" by atomize_elim arith
  then show ?thesis by cases simp_all
qed

lemma undecimal_snoc: "undecimal (xs @ [c]) = 10 * undecimal xs + (of_char c - 48)"
  by (simp add: undecimal_def)

lemma undecimal_decimal: "undecimal (decimal n) = n"
proof (induction n rule: decimal.induct)
  case (1 n)
  show ?case
  proof (cases "n < 10")
    case True
    then show ?thesis
      by (subst decimal.simps) (simp add: undecimal_def digit_value)
  next
    case False
    with 1 have "undecimal (decimal (n div 10)) = n div 10" by simp
    with False show ?thesis
      by (subst decimal.simps) (simp add: undecimal_snoc digit_value)
  qed
qed

lemma decimal_length_pos: "0 < length (decimal n)"
  by (subst decimal.simps) simp

lemma decimal_length_le: "n < 10 ^ k \<Longrightarrow> 0 < k \<Longrightarrow> length (decimal n) \<le> k"
proof (induction n arbitrary: k rule: decimal.induct)
  case (1 n)
  show ?case
  proof (cases "n < 10")
    case True
    with 1(3) show ?thesis by (subst decimal.simps) simp
  next
    case False
    from 1(3) obtain k' where k: "k = Suc k'" by (cases k) auto
    with 1(2) False have "0 < k'" by (cases k') auto
    moreover from 1(2) k have "n div 10 < 10 ^ k'" by (simp add: less_mult_imp_div_less mult.commute)
    ultimately have "length (decimal (n div 10)) \<le> k'" using 1(1) False by simp
    with False k show ?thesis by (subst decimal.simps) simp
  qed
qed

lemma decimal_length_gt: "10 ^ k \<le> n \<Longrightarrow> k < length (decimal n)"
proof (induction n arbitrary: k rule: decimal.induct)
  case (1 n)
  show ?case
  proof (cases k)
    case 0
    then show ?thesis using decimal_length_pos by simp
  next
    case (Suc k')
    with 1(2) have ge: "10 * 10 ^ k' \<le> n" by simp
    then have nl: "\<not> n < 10" by (metis One_nat_def le_trans mult.right_neutral mult_le_mono2 not_less one_le_numeral one_le_power)
    from ge have "10 ^ k' \<le> n div 10" by (simp add: mult.commute less_eq_div_iff_mult_less_eq)
    with 1(1) nl have "k' < length (decimal (n div 10))" by simp
    with nl Suc show ?thesis by (subst decimal.simps) simp
  qed
qed

lemma undecimal_zeros: "undecimal (replicate k (CHR ''0'') @ xs) = undecimal xs"
proof -
  have "foldl (\<lambda>a c. 10 * a + (of_char c - 48)) 0 (replicate k (CHR ''0'')) = (0 :: nat)"
    by (induction k) simp_all
  then show ?thesis by (simp add: undecimal_def)
qed

lemma Sprintf_09d_facts:
  "9 \<le> length (Sprintf_09d n)"
  "length (Sprintf_09d n) = 9 \<longleftrightarrow> n < 10 ^ 9"
  "undecimal (Sprintf_09d n) = n"
proof -
  show "9 \<le> length (Sprintf_09d n)" by (simp add: Sprintf_09d_def)
  show "undecimal (Sprintf_09d n) = n" by (simp add: Sprintf_09d_def undecimal_zeros undecimal_decimal)
  show "length (Sprintf_09d n) = 9 \<longleftrightarrow> n < 10 ^ 9"
  proof
    assume l: "length (Sprintf_09d n) = 9"
    show "n < 10 ^ 9"
    proof (rule ccontr)
      assume "\<not> n < 10 ^ 9"
      then have "10 ^ 9 \<le> n" by simp
      from decimal_length_gt [OF this] l show False by (simp add: Sprintf_09d_def)
    qed
  next
    assume "n < 10 ^ 9"
    then have "length (decimal n) \<le> 9" by (rule decimal_length_le) simp
    then show "length (Sprintf_09d n) = 9" by (simp add: Sprintf_09d_def)
  qed
qed


section \<open>Which files an exchange changes\<close>

lemma saveRequest_ok:
  assumes "(OpCreate, p) \<notin> faults s" and "(OpWrite, p) \<notin> faults s" and "(OpClose, p) \<notin> faults s"
  shows "fst (saveRequest L p r s) = Inr (readReq L p)"
  using assms
  by (simp add: saveRequest_def os_Create_def Request_Write_def File_Write_def File_Close_def
      File_Name_def read_all_def nth_append split: prod.splits option.splits)

lemma ServeHTTP_files:
  assumes "q \<noteq> base_path L ds (id_ds ds + 1) @ ''.0''"
    and "q \<noteq> base_path L ds (id_ds ds + 1) @ ''.1''"
  shows "files (fst (snd (snd (ServeHTTP L ds w r s)))) q = files s q"
  using ServeHTTP_run [of L ds r s w] assms
  by (elim disjE exE conjE) (auto split: sum.splits)

lemma ServeHTTP_captured:
  assumes "fst (saveRequest L (base_path L ds (id_ds ds + 1) @ ''.0'') r s) = Inr f"
  shows "files (fst (snd (snd (ServeHTTP L ds w r s)))) (base_path L ds (id_ds ds + 1) @ ''.0'')
           = Some (Request_wire L (Method r) (URL r) (header_of r s) (fst (read_all (Body r) s)))"
  using ServeHTTP_run [of L ds r s w] assms saveRequest_Inr(2) [OF assms]
  by (elim disjE exE conjE) (auto split: sum.splits)

lemma secondary_go_files:
  assumes "q \<noteq> base @ ''.2''"
  shows "files (secondary_go ds1 (readReq L p0) (saveResp L base) sc s) q = files s q"
  using assms by (simp add: secondary_go_def case_prod_beta split: sum.splits)

lemma ServeHTTP_task:
  assumes "ServeHTTP L ds w r s = (w', ds', s', Some task)"
  shows "\<exists>sc. task = secondary_go (ds\<lparr>id_ds := id_ds ds + 1\<rparr>)
                  (readReq L (base_path L ds (id_ds ds + 1) @ ''.0''))
                  (saveResp L (base_path L ds (id_ds ds + 1))) sc"
  using ServeHTTP_run [of L ds r s w] assms
  by (elim disjE exE conjE) auto

text \<open>The two response writers the variant's handler works with.\<close>

lemma rp_writers:
  assumes "fst (snd (saveRequestResponse_rp L ds r 2 s)) = ([r0, r1], [w0, w1], None)"
  shows "names (WriteCloser w0) (base_path L ds (id_ds ds + 1) @ ''.1'')
           (snd (snd (saveRequestResponse_rp L ds r 2 s)))"
    and "names (WriteCloser w1) (base_path L ds (id_ds ds + 1) @ ''.2'')
           (snd (snd (saveRequestResponse_rp L ds r 2 s)))"
    and "w_rw w0 = None" and "status_rw w0 = 0" and "w_rw w1 = None" and "status_rw w1 = 0"
proof -
  let ?base = "base_path L ds (id_ds ds + 1)"
  let ?s0 = "snd (writeRequest L (?base @ ''.0'') r s)"
  let ?lp = "replay_loop L ?base (?base @ ''.0'') [0..<2] [] [] ?s0"
  from assms have wr: "fst (writeRequest L (?base @ ''.0'') r s) = None"
    by (simp add: saveRequestResponse_rp_parts split: option.splits)
  with assms have res: "fst ?lp = ([r0, r1], [w0, w1], None)"
    by (simp add: saveRequestResponse_rp_parts)
  have sn: "snd (snd (saveRequestResponse_rp L ds r 2 s)) = snd ?lp"
    using wr by (simp add: saveRequestResponse_rp_parts)
  from res have "snd (snd (fst ?lp)) = None" by simp
  from replay_loop_None [OF this] res obtain nrw where
    nrw: "[w0, w1] = nrw"
    and n: "\<forall>j < length [0..<2].
              names (WriteCloser (nrw ! j)) (?base @ ''.'' @ Sprintf_d (int ([0..<2] ! j) + 1)) (snd ?lp) \<and>
              w_rw (nrw ! j) = None \<and> h_rw (nrw ! j) = None \<and> status_rw (nrw ! j) = 0"
    by auto
  from n [rule_format, of 0] nrw
  show "names (WriteCloser w0) (?base @ ''.1'') (snd (snd (saveRequestResponse_rp L ds r 2 s)))"
    and "w_rw w0 = None" and "status_rw w0 = 0"
    unfolding sn by auto
  from n [rule_format, of 1] nrw
  show "names (WriteCloser w1) (?base @ ''.2'') (snd (snd (saveRequestResponse_rp L ds r 2 s)))"
    and "w_rw w1 = None" and "status_rw w1 = 0"
    unfolding sn by auto
qed

lemma saveRequestResponse_rp_files:
  assumes "q \<noteq> base_path L ds (id_ds ds + 1) @ ''.0''"
    and "q \<noteq> base_path L ds (id_ds ds + 1) @ ''.1''"
    and "q \<noteq> base_path L ds (id_ds ds + 1) @ ''.2''"
  shows "files (snd (snd (saveRequestResponse_rp L ds r 2 s))) q = files s q"
proof -
  have "[0..<2] = [0, Suc 0]" by (simp add: upt_rec numeral_2_eq_2)
  then have "q \<notin> (\<lambda>i. base_path L ds (id_ds ds + 1) @ ''.'' @ Sprintf_d (int i + 1)) ` set [0..<2]"
    using assms by simp
  from replay_loop_other [OF this] assms(1) show ?thesis
    by (simp add: saveRequestResponse_rp_parts split: option.splits)
qed

lemma upt_3: "[0..<3] = [0, 1, 2]"
  by (simp add: upt_rec numeral_3_eq_3)

lemma secondary_go_rp_files:
  assumes "names (WriteCloser w1) (base @ ''.2'') s"
    and "q \<noteq> base @ ''.0''" and "q \<noteq> base @ ''.1''" and "q \<noteq> base @ ''.2''"
  shows "files (secondary_go_rp L ds w1 r1 sc s) q = files s q"
proof -
  let ?rp = "ReverseProxy_ServeHTTP L Secondary (secondary ds) w1 r1 s"
  have n: "names (WriteCloser (fst ?rp)) (base @ ''.2'') (snd ?rp)"
    using assms(1) by simp
  have f: "files (snd ?rp) q = files s q"
    using assms(1,4) by (rule RP_other)
  have nm: "File_Name (WriteCloser (fst ?rp)) (snd ?rp) = base @ ''.2''"
    using n by (rule File_Name_names)
  show ?thesis
    using assms(2,3,4) f
    by (simp add: secondary_go_rp_def case_prod_beta Let_def nm upt_3 del: RP_rw)
qed

lemma exchange_rp_files:
  assumes "q \<noteq> base_path L ds (id_ds ds + 1) @ ''.0''"
    and "q \<noteq> base_path L ds (id_ds ds + 1) @ ''.1''"
    and "q \<noteq> base_path L ds (id_ds ds + 1) @ ''.2''"
  shows "files (snd (snd (exchange_rp L ds w r s))) q = files s q"
proof -
  let ?base = "base_path L ds (id_ds ds + 1)"
  let ?s0 = "snd (snd (saveRequestResponse_rp L ds r 2 s))"
  obtain w' ds' s' t where run: "ServeHTTP_rp L ds w r s = (w', ds', s', t)"
    by (cases "ServeHTTP_rp L ds w r s") auto
  have s0: "files ?s0 q = files s q"
    using assms by (rule saveRequestResponse_rp_files)
  show ?thesis
  proof (cases t)
    case None
    with run have "files s' q = files ?s0 q"
      by (auto simp add: ServeHTTP_rp_def case_prod_beta Let_def split: option.splits list.splits)
    with run None s0 show ?thesis by (simp add: exchange_rp_def)
  next
    case (Some task)
    from ServeHTTP_rp_Some [OF run [unfolded Some]] obtain r0 r1 w0 w1 s1 where
      res: "fst (snd (saveRequestResponse_rp L ds r 2 s)) = ([r0, r1], [w0, w1], None)"
      and s1: "s1 = Log LvlDebug ''request 1'' [(''req'', LStr (Method r0 @ '' '' @ URL r0))] ?s0"
      and s': "s' = snd (ReverseProxy_ServeHTTP L Primary (primary ds) (w0\<lparr>w_rw := Some w\<rparr>) r0 s1)"
      and task: "\<exists>sc. task = secondary_go_rp L ds' w1 r1 sc"
      by blast
    from rp_writers(1,2) [OF res] have n0: "names (WriteCloser (w0\<lparr>w_rw := Some w\<rparr>)) (?base @ ''.1'') s1"
      and n1: "names (WriteCloser w1) (?base @ ''.2'') s1"
      by (simp_all add: s1)
    have a: "files s' q = files s1 q"
      unfolding s' using n0 assms(2) by (rule RP_other)
    from n1 have n1': "names (WriteCloser w1) (?base @ ''.2'') s'"
      unfolding s' by simp
    from task obtain sc where task: "task = secondary_go_rp L ds' w1 r1 sc" by blast
    have "files (task s') q = files s' q"
      unfolding task using n1' assms by (rule secondary_go_rp_files)
    with a s0 run Some show ?thesis by (simp add: exchange_rp_def s1)
  qed
qed


lemma fixture_request [simp]:
  "header_of req0 world0 = []" "fst (read_all (Body req0) world0) = ''hello''"
  "Method req0 = ''POST''" "URL req0 = ''/''" "faults world0 = {}"
  by (simp_all add: header_of_def read_all_def req0_def world0_def)





section \<open>Equal status codes\<close>

lemma RP_status_answers:
  assumes "\<forall>x. \<exists>h b. be x = Inr (sc, h, b)"
  shows "status_rw (fst (ReverseProxy_ServeHTTP L tag be rw r s)) = sc"
    and "logs (snd (ReverseProxy_ServeHTTP L tag be rw r s)) = logs s"
proof -
  from assms obtain h b where
    "be (Method r, URL r, header_of r s, fst (read_all (Body r) s)) = Inr (sc, h, b)"
    by blast
  then show "status_rw (fst (ReverseProxy_ServeHTTP L tag be rw r s)) = sc"
    and "logs (snd (ReverseProxy_ServeHTTP L tag be rw r s)) = logs s"
    by (simp_all add: RP_status RP_logs)
qed

lemma secondary_go_rp_match:
  assumes n: "names (WriteCloser w1) (base @ ''.2'') s"
    and sec: "\<forall>x. \<exists>h b. secondary ds x = Inr (sc, h, b)"
  shows "logs (secondary_go_rp L ds w1 r1 sc s) = logs s"
    and "(OpRemove, base @ ''.0'') \<notin> faults s \<Longrightarrow> files (secondary_go_rp L ds w1 r1 sc s) (base @ ''.0'') = None"
    and "(OpRemove, base @ ''.1'') \<notin> faults s \<Longrightarrow> files (secondary_go_rp L ds w1 r1 sc s) (base @ ''.1'') = None"
    and "(OpRemove, base @ ''.2'') \<notin> faults s \<Longrightarrow> files (secondary_go_rp L ds w1 r1 sc s) (base @ ''.2'') = None"
proof -
  let ?rp = "ReverseProxy_ServeHTTP L Secondary (secondary ds) w1 r1 s"
  have st: "status_rw (fst ?rp) = sc" and lg: "logs (snd ?rp) = logs s"
    using sec by (rule RP_status_answers)+
  have "names (WriteCloser (fst ?rp)) (base @ ''.2'') (snd ?rp)"
    using n by simp
  then have nm: "File_Name (WriteCloser (fst ?rp)) (snd ?rp) = base @ ''.2''"
    by (rule File_Name_names)
  have eq: "secondary_go_rp L ds w1 r1 sc s =
              snd (os_Remove (base @ ''.2'') (snd (os_Remove (base @ ''.1'')
                (snd (os_Remove (base @ ''.0'') (snd ?rp))))))"
    by (simp add: secondary_go_rp_def case_prod_beta Let_def st nm upt_3 del: RP_rw)
  show "logs (secondary_go_rp L ds w1 r1 sc s) = logs s"
    unfolding eq by (simp add: lg)
  show "files (secondary_go_rp L ds w1 r1 sc s) (base @ ''.0'') = None"
    if "(OpRemove, base @ ''.0'') \<notin> faults s"
    unfolding eq using that by (simp add: os_Remove_gone)
  show "files (secondary_go_rp L ds w1 r1 sc s) (base @ ''.1'') = None"
    if "(OpRemove, base @ ''.1'') \<notin> faults s"
    unfolding eq using that by (simp add: os_Remove_gone)
  show "files (secondary_go_rp L ds w1 r1 sc s) (base @ ''.2'') = None"
    if "(OpRemove, base @ ''.2'') \<notin> faults s"
    unfolding eq using that by (simp add: os_Remove_gone)
qed

lemma saveRequestResponse_rp_frame [simp]:
  "logs (snd (snd (saveRequestResponse_rp L ds r n s))) = logs s"
  "faults (snd (snd (saveRequestResponse_rp L ds r n s))) = faults s"
  by (simp_all add: saveRequestResponse_rp_parts split: option.splits)

lemma exchange_rp_match:
  assumes pri: "\<forall>x. \<exists>h b. primary ds x = Inr (sc, h, b)"
    and sec: "\<forall>x. \<exists>h b. secondary ds x = Inr (sc, h, b)"
    and run: "ServeHTTP_rp L ds w r s = (w', ds', s', Some task)"
  shows "\<exists>x. logs (task s') = logs s @ [(LvlDebug, ''request 1'', x)]"
    and "(OpRemove, base_path L ds (id_ds ds + 1) @ ''.0'') \<notin> faults s \<Longrightarrow>
           files (task s') (base_path L ds (id_ds ds + 1) @ ''.0'') = None"
    and "(OpRemove, base_path L ds (id_ds ds + 1) @ ''.1'') \<notin> faults s \<Longrightarrow>
           files (task s') (base_path L ds (id_ds ds + 1) @ ''.1'') = None"
    and "(OpRemove, base_path L ds (id_ds ds + 1) @ ''.2'') \<notin> faults s \<Longrightarrow>
           files (task s') (base_path L ds (id_ds ds + 1) @ ''.2'') = None"
proof -
  let ?base = "base_path L ds (id_ds ds + 1)"
  let ?s0 = "snd (snd (saveRequestResponse_rp L ds r 2 s))"
  from ServeHTTP_rp_Some [OF run] obtain r0 r1 w0 w1 s1 where
    res: "fst (snd (saveRequestResponse_rp L ds r 2 s)) = ([r0, r1], [w0, w1], None)"
    and s1: "s1 = Log LvlDebug ''request 1'' [(''req'', LStr (Method r0 @ '' '' @ URL r0))] ?s0"
    and ds': "ds' = ds\<lparr>id_ds := id_ds ds + 1\<rparr>"
    and s': "s' = snd (ReverseProxy_ServeHTTP L Primary (primary ds) (w0\<lparr>w_rw := Some w\<rparr>) r0 s1)"
    and task: "task = secondary_go_rp L ds' w1 r1
                 (status_rw (fst (ReverseProxy_ServeHTTP L Primary (primary ds) (w0\<lparr>w_rw := Some w\<rparr>) r0 s1)))"
    by blast
  have task': "task = secondary_go_rp L ds' w1 r1 sc"
    unfolding task using RP_status_answers(1) [OF pri] by simp
  have sec': "\<forall>x. \<exists>h b. secondary ds' x = Inr (sc, h, b)"
    using sec by (simp add: ds')
  have n1: "names (WriteCloser w1) (?base @ ''.2'') s'"
    unfolding s' using rp_writers(2) [OF res] by (simp add: s1)
  have lg: "logs s' = logs s @ [(LvlDebug, ''request 1'', [(''req'', LStr (Method r0 @ '' '' @ URL r0))])]"
    unfolding s' using RP_status_answers(2) [OF pri] by (simp add: s1)
  have fl: "faults s' = faults s"
    unfolding s' by (simp add: s1)
  note m = secondary_go_rp_match [OF n1 sec', of L r1, folded task']
  from m(1) lg show "\<exists>x. logs (task s') = logs s @ [(LvlDebug, ''request 1'', x)]"
    by simp
  show "files (task s') (?base @ ''.0'') = None" if "(OpRemove, ?base @ ''.0'') \<notin> faults s"
    using m(2) that fl by simp
  show "files (task s') (?base @ ''.1'') = None" if "(OpRemove, ?base @ ''.1'') \<notin> faults s"
    using m(3) that fl by simp
  show "files (task s') (?base @ ''.2'') = None" if "(OpRemove, ?base @ ''.2'') \<notin> faults s"
    using m(4) that fl by simp
qed

text \<open>The goroutine of \<^verbatim>\<open>main.go\<close> removes nothing, and it logs a mismatch only for
  different status codes.\<close>

lemma secondary_go_keeps:
  assumes "files s q \<noteq> None"
  shows "files (secondary_go ds1 (readReq L p0) (saveResp L base) sc s) q \<noteq> None"
  using assms
  by (auto simp add: secondary_go_def case_prod_beta intro!: saveResp_keeps split: sum.splits
      simp del: not_None_eq)

lemma secondary_go_logs:
  assumes "\<forall>x. \<exists>h b. secondary ds1 x = Inr (sc, h, b)"
  shows "\<exists>new. logs (secondary_go ds1 (readReq L p0) (saveResp L base) sc s) = logs s @ new \<and>
               (\<forall>e \<in> set new. fst (snd e) \<noteq> ''status code mismatch'')"
proof -
  have "StatusCode resp2 = sc"
    if "fst (Client_Do Secondary (secondary ds1) rq t) = Inr resp2" for rq t resp2
    using Client_Do_Inr [OF that] assms by (metis Inr_inject Pair_inject)
  then show ?thesis
    by (auto simp add: secondary_go_def case_prod_beta split: sum.splits)
qed

lemma ServeHTTP_task_status:
  assumes "ServeHTTP L ds w r s = (w', ds', s', Some task)"
    and "\<forall>x. \<exists>h b. primary ds x = Inr (sc, h, b)"
  shows "task = secondary_go (ds\<lparr>id_ds := id_ds ds + 1\<rparr>)
                  (readReq L (base_path L ds (id_ds ds + 1) @ ''.0''))
                  (saveResp L (base_path L ds (id_ds ds + 1))) sc"
proof -
  have "StatusCode resp1 = sc"
    if "fst (Client_Do Primary (primary ds) rq t) = Inr resp1" for rq t resp1
    using Client_Do_Inr [OF that] assms(2) by (metis Inr_inject Pair_inject)
  with ServeHTTP_run [of L ds r s w] assms(1) show ?thesis
    by (elim disjE exE conjE) auto
qed


lemma ServeHTTP_Some_captured:
  assumes "ServeHTTP L ds w r s = (w', ds', s', Some task)"
  shows "files s' (base_path L ds (id_ds ds + 1) @ ''.0'') \<noteq> None"
proof -
  from ServeHTTP_run [of L ds r s w] assms obtain f where
    "fst (saveRequest L (base_path L ds (id_ds ds + 1) @ ''.0'') r s) = Inr f"
    by (elim disjE exE conjE) auto
  from ServeHTTP_captured [OF this, of w] assms show ?thesis by simp
qed

text \<open>
  C4, as stated, fails. Both backends answer \<^verbatim>\<open>200 "ok"\<close>. In the reverse-proxy
  variant the request artifact \<open>N.0\<close> exists when the handler returns, and the
  goroutine then removes it (as it does \<open>N.1\<close> and \<open>N.2\<close>).
\<close>

theorem equal_status_counterexample:
  "map fst (calls (snd (snd (exchange_rp lib0 server0 writer0 req0 world0)))) = [Primary, Secondary] \<and>
   files (fst (snd (snd (ServeHTTP_rp lib0 server0 writer0 req0 world0)))) ''reqlog/000000001.0'' \<noteq> None \<and>
   files (snd (snd (exchange_rp lib0 server0 writer0 req0 world0))) ''reqlog/000000001.0'' = None"
  by code_simp

text \<open>
  C4, amended. For every exchange in which both backends answer and the status codes
  are equal, no mismatch is logged. In the reverse-proxy variant the goroutine then
  removes all three artifacts: \<open>N.0\<close>, \<open>N.1\<close> and \<open>N.2\<close> are each absent afterwards
  unless its removal fails, and the log holds nothing new but the debug record of the
  handler. In \<^verbatim>\<open>main.go\<close> nothing is pruned: every file that exists when the handler
  returns, \<open>N.0\<close> among them, still exists after the goroutine.
\<close>

theorem equal_status:
  assumes "\<forall>x. \<exists>h b. primary ds x = Inr (sc, h, b)"
    and "\<forall>x. \<exists>h b. secondary ds x = Inr (sc, h, b)"
    and "base = filepath_Join L (dir ds) (Sprintf_09d (unat (id_ds ds + 1)))"
  shows "(\<forall>w' ds' s' task. ServeHTTP_rp L ds w r s = (w', ds', s', Some task) \<longrightarrow>
            (\<exists>x. logs (task s') = logs s @ [(LvlDebug, ''request 1'', x)]) \<and>
            ((OpRemove, base @ ''.0'') \<notin> faults s \<longrightarrow> files (task s') (base @ ''.0'') = None) \<and>
            ((OpRemove, base @ ''.1'') \<notin> faults s \<longrightarrow> files (task s') (base @ ''.1'') = None) \<and>
            ((OpRemove, base @ ''.2'') \<notin> faults s \<longrightarrow> files (task s') (base @ ''.2'') = None)) \<and>
         (\<forall>w' ds' s' task. ServeHTTP L ds w r s = (w', ds', s', Some task) \<longrightarrow>
            (\<forall>q. files s' q \<noteq> None \<longrightarrow> files (task s') q \<noteq> None) \<and>
            files (task s') (base @ ''.0'') \<noteq> None \<and>
            (\<exists>new. logs (task s') = logs s' @ new \<and>
                   (\<forall>e \<in> set new. fst (snd e) \<noteq> ''status code mismatch'')))"
proof -
  have b: "base = base_path L ds (id_ds ds + 1)"
    by (simp add: assms(3) base_path_def)
  have A: "(\<exists>x. logs (task s') = logs s @ [(LvlDebug, ''request 1'', x)]) \<and>
            ((OpRemove, base @ ''.0'') \<notin> faults s \<longrightarrow> files (task s') (base @ ''.0'') = None) \<and>
            ((OpRemove, base @ ''.1'') \<notin> faults s \<longrightarrow> files (task s') (base @ ''.1'') = None) \<and>
            ((OpRemove, base @ ''.2'') \<notin> faults s \<longrightarrow> files (task s') (base @ ''.2'') = None)"
    if run: "ServeHTTP_rp L ds w r s = (w', ds', s', Some task)" for w' ds' s' task
    using exchange_rp_match [OF assms(1,2) run] unfolding b by blast
  have B: "(\<forall>q. files s' q \<noteq> None \<longrightarrow> files (task s') q \<noteq> None) \<and>
            files (task s') (base @ ''.0'') \<noteq> None \<and>
            (\<exists>new. logs (task s') = logs s' @ new \<and>
                   (\<forall>e \<in> set new. fst (snd e) \<noteq> ''status code mismatch''))"
    if run: "ServeHTTP L ds w r s = (w', ds', s', Some task)" for w' ds' s' task
  proof -
    let ?ds1 = "ds\<lparr>id_ds := id_ds ds + 1\<rparr>"
    have task: "task = secondary_go ?ds1 (readReq L (base @ ''.0'')) (saveResp L base) sc"
      unfolding b by (rule ServeHTTP_task_status [OF run assms(1)])
    have sec: "\<forall>x. \<exists>h b. secondary ?ds1 x = Inr (sc, h, b)"
      using assms(2) by simp
    have k: "\<forall>q. files s' q \<noteq> None \<longrightarrow> files (task s') q \<noteq> None"
      unfolding task by (intro allI impI secondary_go_keeps)
    have c: "files s' (base @ ''.0'') \<noteq> None"
      unfolding b by (rule ServeHTTP_Some_captured [OF run])
    have l: "\<exists>new. logs (task s') = logs s' @ new \<and>
                   (\<forall>e \<in> set new. fst (snd e) \<noteq> ''status code mismatch'')"
      unfolding task by (rule secondary_go_logs [OF sec])
    from k c l show ?thesis by blast
  qed
  from A B show ?thesis by blast
qed

theorem equal_status_witness:
  "(\<exists>w' ds' s' task. ServeHTTP_rp lib0 server0 writer0 req0 world0 = (w', ds', s', Some task) \<and>
      (\<exists>x. logs (task s') = [(LvlDebug, ''request 1'', x)]) \<and>
      files (task s') ''reqlog/000000001.0'' = None \<and>
      files (task s') ''reqlog/000000001.1'' = None \<and>
      files (task s') ''reqlog/000000001.2'' = None) \<and>
   (\<exists>w' ds' s' task. ServeHTTP lib0 server0 writer0 req0 world0 = (w', ds', s', Some task) \<and>
      files (task s') ''reqlog/000000001.0'' \<noteq> None)"
proof -
  have p: "\<forall>x. \<exists>h b. primary server0 x = Inr (200, h, b)"
    by (simp add: server0_def newDualServer_def answers_def)
  have q: "\<forall>x. \<exists>h b. secondary server0 x = Inr (200, h, b)"
    by (simp add: server0_def newDualServer_def answers_def)
  have b: "''reqlog/000000001'' = filepath_Join lib0 (dir server0) (Sprintf_09d (unat (id_ds server0 + 1)))"
    by (simp add: lib0_def server0_def newDualServer_def Sprintf_09d_Suc0)
  note T = equal_status [OF p q b, of writer0 req0 world0]
  have "snd (snd (snd (ServeHTTP_rp lib0 server0 writer0 req0 world0))) \<noteq> None"
    by code_simp
  then obtain w' ds' s' task where
    run: "ServeHTTP_rp lib0 server0 writer0 req0 world0 = (w', ds', s', Some task)"
    by (cases "ServeHTTP_rp lib0 server0 writer0 req0 world0") auto
  have lg: "logs world0 = []" by (simp add: world0_def)
  from T run have "(\<exists>x. logs (task s') = [(LvlDebug, ''request 1'', x)]) \<and>
      files (task s') ''reqlog/000000001.0'' = None \<and>
      files (task s') ''reqlog/000000001.1'' = None \<and>
      files (task s') ''reqlog/000000001.2'' = None"
    by (simp add: lg)
  with run have A: "\<exists>w' ds' s' task. ServeHTTP_rp lib0 server0 writer0 req0 world0 = (w', ds', s', Some task) \<and>
      (\<exists>x. logs (task s') = [(LvlDebug, ''request 1'', x)]) \<and>
      files (task s') ''reqlog/000000001.0'' = None \<and>
      files (task s') ''reqlog/000000001.1'' = None \<and>
      files (task s') ''reqlog/000000001.2'' = None"
    by blast
  have "snd (snd (snd (ServeHTTP lib0 server0 writer0 req0 world0))) \<noteq> None"
    by code_simp
  then obtain v' es' t' task' where
    run': "ServeHTTP lib0 server0 writer0 req0 world0 = (v', es', t', Some task')"
    by (cases "ServeHTTP lib0 server0 writer0 req0 world0") auto
  with T have "files (task' t') ''reqlog/000000001.0'' \<noteq> None"
    by simp
  with run' have B: "\<exists>w' ds' s' task. ServeHTTP lib0 server0 writer0 req0 world0 = (w', ds', s', Some task) \<and>
      files (task s') ''reqlog/000000001.0'' \<noteq> None"
    by blast
  from A B show ?thesis by blast
qed


section \<open>The replay objects of an exchange\<close>

lemma fresh_replays_same:
  "replays s' = replays s \<Longrightarrow> length (heap s') = length (heap s) \<Longrightarrow> fresh_replays s s'"
  by (simp add: fresh_replays_def)

lemma fresh_replays_trans:
  assumes "fresh_replays s s1" and "fresh_replays s1 s2"
  shows "fresh_replays s s2"
proof -
  from assms(1) obtain n1 where a: "replays s1 = replays s @ n1"
    "length (heap s1) = length (heap s) + length n1"
    "\<forall>j < length n1. Header (fst (n1 ! j)) = length (heap s) + j"
    unfolding fresh_replays_def by blast
  from assms(2) obtain n2 where b: "replays s2 = replays s1 @ n2"
    "length (heap s2) = length (heap s1) + length n2"
    "\<forall>j < length n2. Header (fst (n2 ! j)) = length (heap s1) + j"
    unfolding fresh_replays_def by blast
  have "\<forall>j < length (n1 @ n2). Header (fst ((n1 @ n2) ! j)) = length (heap s) + j"
    using a(2,3) b(3) by (auto simp add: nth_append)
  with a b show ?thesis
    unfolding fresh_replays_def by (intro exI [of _ "n1 @ n2"]) simp
qed

lemma fresh_replays_cong:
  assumes "replays a' = replays a" "heap a' = heap a" "replays b' = replays b" "heap b' = heap b"
  shows "fresh_replays a' b' = fresh_replays a b"
  using assms by (simp add: fresh_replays_def)

lemma readReq_fresh: "fresh_replays s (snd (readReq L nm s))"
proof (cases "fst (readReq L nm s)")
  case (Inl e)
  from readReq_Inl [OF this] show ?thesis by (simp add: fresh_replays_def)
next
  case (Inr rq)
  from readReq_Inr [OF this] obtain h b where
    "rq = \<lparr>Method = fst (the (Request_parse L (the (files s nm)))),
           URL = fst (snd (the (Request_parse L (the (files s nm))))),
           RequestURI = fst (snd (the (Request_parse L (the (files s nm))))),
           Header = length (heap s), Body = length (streams s)\<rparr>"
    "heap (snd (readReq L nm s)) = heap s @ [h]"
    "replays (snd (readReq L nm s)) = replays s @ [(rq, b)]"
    by auto
  then show ?thesis
    unfolding fresh_replays_def by (intro exI [of _ "[(rq, b)]"]) simp
qed

lemma replays_carry_same: "replays s' = replays s \<Longrightarrow> replays_carry B s s'"
  by (simp add: replays_carry_def)

lemma replays_carry_trans:
  assumes "replays_carry B s s1" and "replays_carry B s1 s2"
  shows "replays_carry B s s2"
proof -
  from assms obtain n1 n2 where "replays s1 = replays s @ n1" "\<forall>x \<in> set n1. snd x = B"
    "replays s2 = replays s1 @ n2" "\<forall>x \<in> set n2. snd x = B"
    unfolding replays_carry_def by blast
  then show ?thesis
    unfolding replays_carry_def by (intro exI [of _ "n1 @ n2"]) auto
qed

lemma replays_carry_cong:
  assumes "replays a' = replays a" "replays b' = replays b"
  shows "replays_carry B a' b' = replays_carry B a b"
  using assms by (simp add: replays_carry_def)

lemma readReq_carry:
  assumes "files s nm = Some d" and "Request_parse L d = Some (m, u, h, B)"
  shows "replays_carry B s (snd (readReq L nm s))"
proof (cases "fst (readReq L nm s)")
  case (Inl e)
  from readReq_Inl [OF this] show ?thesis by (simp add: replays_carry_def)
next
  case (Inr rq)
  from readReq_Inr [OF this] assms have "replays (snd (readReq L nm s)) = replays s @ [(rq, B)]"
    by auto
  then show ?thesis
    unfolding replays_carry_def by (intro exI [of _ "[(rq, B)]"]) simp
qed


subsection \<open>\<^verbatim>\<open>main.go\<close>\<close>

lemma secondary_go_fresh:
  "fresh_replays s (secondary_go ds1 (readReq L p0) (saveResp L base) sc s)"
proof -
  have "fresh_replays s (secondary_go ds1 (readReq L p0) (saveResp L base) sc s)
          = fresh_replays s (snd (readReq L p0 s))"
    by (rule fresh_replays_cong)
       (simp_all add: secondary_go_def case_prod_beta split: sum.splits)
  then show ?thesis by (simp add: readReq_fresh)
qed

lemma secondary_go_carry:
  assumes "files s p0 = Some d" and "Request_parse L d = Some (m, u, h, B)"
  shows "replays_carry B s (secondary_go ds1 (readReq L p0) (saveResp L base) sc s)"
proof -
  have "replays_carry B s (secondary_go ds1 (readReq L p0) (saveResp L base) sc s)
          = replays_carry B s (snd (readReq L p0 s))"
    by (rule replays_carry_cong)
       (simp_all add: secondary_go_def case_prod_beta split: sum.splits)
  then show ?thesis using readReq_carry [OF assms] by simp
qed

lemma ServeHTTP_replays:
  "replays (fst (snd (snd (ServeHTTP L ds w r s)))) = replays s \<and>
   heap (fst (snd (snd (ServeHTTP L ds w r s)))) = heap s \<or>
   (\<exists>f. fst (saveRequest L (base_path L ds (id_ds ds + 1) @ ''.0'') r s) = Inr f) \<and>
   replays (fst (snd (snd (ServeHTTP L ds w r s))))
     = replays (snd (readReq L (base_path L ds (id_ds ds + 1) @ ''.0'')
                       (snd (saveRequest L (base_path L ds (id_ds ds + 1) @ ''.0'') r s)))) \<and>
   heap (fst (snd (snd (ServeHTTP L ds w r s))))
     = heap (snd (readReq L (base_path L ds (id_ds ds + 1) @ ''.0'')
                       (snd (saveRequest L (base_path L ds (id_ds ds + 1) @ ''.0'') r s))))"
  using ServeHTTP_run [of L ds r s w]
  by (elim disjE exE conjE) (auto split: sum.splits)

lemma ServeHTTP_fresh: "fresh_replays s (fst (snd (snd (ServeHTTP L ds w r s))))"
proof -
  let ?p0 = "base_path L ds (id_ds ds + 1) @ ''.0''"
  let ?s1 = "snd (saveRequest L ?p0 r s)"
  from ServeHTTP_replays [of L ds w r s] show ?thesis
  proof
    assume "replays (fst (snd (snd (ServeHTTP L ds w r s)))) = replays s \<and>
            heap (fst (snd (snd (ServeHTTP L ds w r s)))) = heap s"
    then show ?thesis by (simp add: fresh_replays_same)
  next
    assume a: "(\<exists>f. fst (saveRequest L ?p0 r s) = Inr f) \<and>
       replays (fst (snd (snd (ServeHTTP L ds w r s)))) = replays (snd (readReq L ?p0 ?s1)) \<and>
       heap (fst (snd (snd (ServeHTTP L ds w r s)))) = heap (snd (readReq L ?p0 ?s1))"
    have "fresh_replays s (fst (snd (snd (ServeHTTP L ds w r s))))
            = fresh_replays ?s1 (snd (readReq L ?p0 ?s1))"
      by (rule fresh_replays_cong) (use a in simp_all)
    then show ?thesis by (simp add: readReq_fresh)
  qed
qed

lemma ServeHTTP_carry:
  assumes "Request_parse L (Request_wire L (Method r) (URL r) (header_of r s) (fst (read_all (Body r) s)))
             = Some (m, u, h, B)"
  shows "replays_carry B s (fst (snd (snd (ServeHTTP L ds w r s))))"
proof -
  let ?p0 = "base_path L ds (id_ds ds + 1) @ ''.0''"
  let ?s1 = "snd (saveRequest L ?p0 r s)"
  from ServeHTTP_replays [of L ds w r s] show ?thesis
  proof
    assume "replays (fst (snd (snd (ServeHTTP L ds w r s)))) = replays s \<and>
            heap (fst (snd (snd (ServeHTTP L ds w r s)))) = heap s"
    then show ?thesis by (simp add: replays_carry_same)
  next
    assume a: "(\<exists>f. fst (saveRequest L ?p0 r s) = Inr f) \<and>
       replays (fst (snd (snd (ServeHTTP L ds w r s)))) = replays (snd (readReq L ?p0 ?s1)) \<and>
       heap (fst (snd (snd (ServeHTTP L ds w r s)))) = heap (snd (readReq L ?p0 ?s1))"
    then obtain f where f: "fst (saveRequest L ?p0 r s) = Inr f" by blast
    have "replays_carry B s (fst (snd (snd (ServeHTTP L ds w r s))))
            = replays_carry B ?s1 (snd (readReq L ?p0 ?s1))"
      by (rule replays_carry_cong) (use a in simp_all)
    then show ?thesis
      using readReq_carry [OF saveRequest_Inr(2) [OF f] assms] by simp
  qed
qed

lemma exchange_world:
  "snd (snd (exchange L ds w r s)) =
     (case snd (snd (snd (ServeHTTP L ds w r s))) of
        None \<Rightarrow> fst (snd (snd (ServeHTTP L ds w r s)))
      | Some task \<Rightarrow> task (fst (snd (snd (ServeHTTP L ds w r s)))))"
  by (simp add: exchange_def case_prod_beta split: option.splits prod.splits)

lemma exchange_fresh: "fresh_replays s (snd (snd (exchange L ds w r s)))"
proof (cases "snd (snd (snd (ServeHTTP L ds w r s)))")
  case None
  then show ?thesis by (simp add: exchange_world ServeHTTP_fresh)
next
  case (Some task)
  obtain w' ds' s' where run: "ServeHTTP L ds w r s = (w', ds', s', Some task)"
    using Some by (cases "ServeHTTP L ds w r s") auto
  from ServeHTTP_task [OF run] obtain sc where
    "task = secondary_go (ds\<lparr>id_ds := id_ds ds + 1\<rparr>)
              (readReq L (base_path L ds (id_ds ds + 1) @ ''.0''))
              (saveResp L (base_path L ds (id_ds ds + 1))) sc"
    by blast
  then have "fresh_replays s' (task s')" by (simp add: secondary_go_fresh)
  moreover have "fresh_replays s s'" using ServeHTTP_fresh [of s L ds w r] run by simp
  ultimately have "fresh_replays s (task s')" by (rule fresh_replays_trans [rotated])
  with run show ?thesis by (simp add: exchange_world)
qed

lemma exchange_carry:
  assumes "Request_parse L (Request_wire L (Method r) (URL r) (header_of r s) (fst (read_all (Body r) s)))
             = Some (m, u, h, B)"
  shows "replays_carry B s (snd (snd (exchange L ds w r s)))"
proof (cases "snd (snd (snd (ServeHTTP L ds w r s)))")
  case None
  then show ?thesis by (simp add: exchange_world ServeHTTP_carry [OF assms])
next
  case (Some task)
  obtain w' ds' s' where run: "ServeHTTP L ds w r s = (w', ds', s', Some task)"
    using Some by (cases "ServeHTTP L ds w r s") auto
  from ServeHTTP_task [OF run] obtain sc where
    task: "task = secondary_go (ds\<lparr>id_ds := id_ds ds + 1\<rparr>)
              (readReq L (base_path L ds (id_ds ds + 1) @ ''.0''))
              (saveResp L (base_path L ds (id_ds ds + 1))) sc"
    by blast
  from ServeHTTP_run [of L ds r s w] run obtain f where
    f: "fst (saveRequest L (base_path L ds (id_ds ds + 1) @ ''.0'') r s) = Inr f"
    by (elim disjE exE conjE) auto
  from ServeHTTP_captured [OF f, of w] run
  have "files s' (base_path L ds (id_ds ds + 1) @ ''.0'')
          = Some (Request_wire L (Method r) (URL r) (header_of r s) (fst (read_all (Body r) s)))"
    by simp
  from secondary_go_carry [OF this assms]
  have "replays_carry B s' (task s')" unfolding task .
  moreover have "replays_carry B s s'" using ServeHTTP_carry [OF assms, of ds w] run by simp
  ultimately have "replays_carry B s (task s')" by (rule replays_carry_trans [rotated])
  with run show ?thesis by (simp add: exchange_world)
qed


subsection \<open>The reverse-proxy variant\<close>

lemma replay_loop_fresh:
  "fresh_replays s (snd (replay_loop L base reqFn is rqs rws s))"
proof (induction "is" arbitrary: rqs rws s)
  case Nil
  show ?case by (simp add: fresh_replays_same)
next
  case (Cons i "is")
  let ?s1 = "snd (readReq L reqFn s)"
  let ?s2 = "snd (os_Create (base @ ''.'' @ Sprintf_d (int i + 1)) ?s1)"
  have a: "fresh_replays s ?s1" by (rule readReq_fresh)
  have b: "fresh_replays ?s1 ?s2" by (rule fresh_replays_same) simp_all
  have ab: "fresh_replays s ?s2" using a b by (rule fresh_replays_trans)
  show ?case
  proof (cases "fst (readReq L reqFn s)")
    case (Inl e)
    with a show ?thesis by (simp add: replay_loop_Cons del: replay_loop.simps)
  next
    case (Inr rq)
    show ?thesis
    proof (cases "fst (os_Create (base @ ''.'' @ Sprintf_d (int i + 1)) ?s1)")
      case (Inl e)
      with Inr ab show ?thesis by (simp add: replay_loop_Cons del: replay_loop.simps)
    next
      case wc: (Inr wc)
      from fresh_replays_trans [OF ab Cons.IH] Inr wc show ?thesis
        by (simp add: replay_loop_Cons del: replay_loop.simps)
    qed
  qed
qed

lemma replay_loop_carry:
  assumes "files s reqFn = Some d" and "Request_parse L d = Some (m, u, h, B)"
    and "reqFn \<notin> (\<lambda>i. base @ ''.'' @ Sprintf_d (int i + 1)) ` set is"
  shows "replays_carry B s (snd (replay_loop L base reqFn is rqs rws s))"
  using assms
proof (induction "is" arbitrary: rqs rws s)
  case Nil
  show ?case by (simp add: replays_carry_same)
next
  case (Cons i "is")
  let ?s1 = "snd (readReq L reqFn s)"
  let ?s2 = "snd (os_Create (base @ ''.'' @ Sprintf_d (int i + 1)) ?s1)"
  from Cons.prems(3) have ne: "reqFn \<noteq> base @ ''.'' @ Sprintf_d (int i + 1)"
    and rest: "reqFn \<notin> (\<lambda>i. base @ ''.'' @ Sprintf_d (int i + 1)) ` set is"
    by auto
  have a: "replays_carry B s ?s1" by (rule readReq_carry [OF Cons.prems(1,2)])
  have b: "replays_carry B ?s1 ?s2" by (rule replays_carry_same) simp
  have ab: "replays_carry B s ?s2" using a b by (rule replays_carry_trans)
  have f2: "files ?s2 reqFn = Some d" using ne Cons.prems(1) by simp
  show ?case
  proof (cases "fst (readReq L reqFn s)")
    case (Inl e)
    with a show ?thesis by (simp add: replay_loop_Cons del: replay_loop.simps)
  next
    case (Inr rq)
    show ?thesis
    proof (cases "fst (os_Create (base @ ''.'' @ Sprintf_d (int i + 1)) ?s1)")
      case (Inl e)
      with Inr ab show ?thesis by (simp add: replay_loop_Cons del: replay_loop.simps)
    next
      case wc: (Inr wc)
      from replays_carry_trans [OF ab Cons.IH [OF f2 Cons.prems(2) rest]] Inr wc show ?thesis
        by (simp add: replay_loop_Cons del: replay_loop.simps)
    qed
  qed
qed

lemma secondary_go_rp_frame [simp]:
  "replays (secondary_go_rp L ds w r sc s) = replays s"
  "heap (secondary_go_rp L ds w r sc s) = heap s"
  by (simp_all add: secondary_go_rp_def case_prod_beta Let_def
      removes_keep [where P = replays] removes_keep [where P = heap])

lemma exchange_rp_replays:
  "replays (snd (snd (exchange_rp L ds w r s))) = replays (snd (snd (saveRequestResponse_rp L ds r 2 s)))"
  "heap (snd (snd (exchange_rp L ds w r s))) = heap (snd (snd (saveRequestResponse_rp L ds r 2 s)))"
  by (auto simp add: exchange_rp_def ServeHTTP_rp_def case_prod_beta Let_def
      split: option.splits list.splits)

lemma saveRequestResponse_rp_fresh:
  "fresh_replays s (snd (snd (saveRequestResponse_rp L ds r 2 s)))"
proof (cases "fst (writeRequest L (base_path L ds (id_ds ds + 1) @ ''.0'') r s)")
  case (Some e)
  then show ?thesis
    by (simp add: saveRequestResponse_rp_parts fresh_replays_same)
next
  case None
  let ?s0 = "snd (writeRequest L (base_path L ds (id_ds ds + 1) @ ''.0'') r s)"
  have "fresh_replays s ?s0" by (rule fresh_replays_same) simp_all
  from fresh_replays_trans [OF this replay_loop_fresh] None show ?thesis
    by (simp add: saveRequestResponse_rp_parts)
qed

lemma saveRequestResponse_rp_carry:
  assumes "Request_parse L (Request_wire L (Method r) (URL r) (header_of r s) (fst (read_all (Body r) s)))
             = Some (m, u, h, B)"
  shows "replays_carry B s (snd (snd (saveRequestResponse_rp L ds r 2 s)))"
proof (cases "fst (writeRequest L (base_path L ds (id_ds ds + 1) @ ''.0'') r s)")
  case (Some e)
  then show ?thesis
    by (simp add: saveRequestResponse_rp_parts replays_carry_same)
next
  case None
  let ?base = "base_path L ds (id_ds ds + 1)"
  let ?s0 = "snd (writeRequest L (?base @ ''.0'') r s)"
  have a: "replays_carry B s ?s0" by (rule replays_carry_same) simp
  have "[0..<2] = [0, Suc 0]" by (simp add: upt_rec numeral_2_eq_2)
  then have ni: "?base @ ''.0'' \<notin> (\<lambda>i. ?base @ ''.'' @ Sprintf_d (int i + 1)) ` set [0..<2]"
    by simp
  from replays_carry_trans [OF a replay_loop_carry [OF writeRequest_None [OF None] assms ni]] None
  show ?thesis
    by (simp add: saveRequestResponse_rp_parts)
qed

lemma exchange_rp_fresh: "fresh_replays s (snd (snd (exchange_rp L ds w r s)))"
proof -
  have "fresh_replays s (snd (snd (exchange_rp L ds w r s)))
          = fresh_replays s (snd (snd (saveRequestResponse_rp L ds r 2 s)))"
    by (rule fresh_replays_cong) (simp_all add: exchange_rp_replays)
  then show ?thesis by (simp add: saveRequestResponse_rp_fresh)
qed

lemma exchange_rp_carry:
  assumes "Request_parse L (Request_wire L (Method r) (URL r) (header_of r s) (fst (read_all (Body r) s)))
             = Some (m, u, h, B)"
  shows "replays_carry B s (snd (snd (exchange_rp L ds w r s)))"
proof -
  have "replays_carry B s (snd (snd (exchange_rp L ds w r s)))
          = replays_carry B s (snd (snd (saveRequestResponse_rp L ds r 2 s)))"
    by (rule replays_carry_cong) (simp_all add: exchange_rp_replays)
  then show ?thesis by (simp add: saveRequestResponse_rp_carry [OF assms])
qed


section \<open>The bodies that reach the backends\<close>

lemma calls_carry_same: "calls s' = calls s \<Longrightarrow> calls_carry B s s'"
  by (simp add: calls_carry_def)

lemma calls_carry_trans:
  assumes "calls_carry B s s1" and "calls_carry B s1 s2"
  shows "calls_carry B s s2"
proof -
  from assms obtain n1 n2 where "calls s1 = calls s @ n1" "\<forall>c \<in> set n1. snd (snd c) = B"
    "calls s2 = calls s1 @ n2" "\<forall>c \<in> set n2. snd (snd c) = B"
    unfolding calls_carry_def by blast
  then show ?thesis
    unfolding calls_carry_def by (intro exI [of _ "n1 @ n2"]) auto
qed

lemma calls_carry_cong:
  assumes "calls a' = calls a" "calls b' = calls b"
  shows "calls_carry B a' b' = calls_carry B a b"
  using assms by (simp add: calls_carry_def)

lemma readReq_Do_carry:
  assumes rq: "fst (readReq L nm s) = Inr rq"
    and d: "files s nm = Some d" and p: "Request_parse L d = Some (m, u, h, B)"
    and b: "Body rq' = Body rq"
  shows "calls_carry B s (snd (Client_Do tag be rq' (snd (readReq L nm s))))"
proof -
  from readReq_Inr [OF rq] d p have
    "Body rq = length (streams s)" "streams (snd (readReq L nm s)) = streams s @ [B]"
    by auto
  with b have "fst (read_all (Body rq') (snd (readReq L nm s))) = B"
    by (simp add: read_all_fst)
  then show ?thesis
    by (simp add: calls_carry_def Client_Do_calls)
qed

lemma secondary_go_calls:
  assumes "files s p0 = Some d" and "Request_parse L d = Some (m, u, h, B)"
  shows "calls_carry B s (secondary_go ds1 (readReq L p0) (saveResp L base) sc s)"
proof (cases "fst (readReq L p0 s)")
  case (Inl e)
  then show ?thesis by (simp add: secondary_go_def case_prod_beta calls_carry_same)
next
  case (Inr rq)
  have "calls_carry B s (secondary_go ds1 (readReq L p0) (saveResp L base) sc s)
          = calls_carry B s (snd (Client_Do Secondary (secondary ds1) rq (snd (readReq L p0 s))))"
    by (rule calls_carry_cong) (simp_all add: secondary_go_def case_prod_beta Inr split: sum.splits)
  then show ?thesis using readReq_Do_carry [OF Inr assms refl] by simp
qed

lemma ServeHTTP_calls:
  assumes "Request_parse L (Request_wire L (Method r) (URL r) (header_of r s) (fst (read_all (Body r) s)))
             = Some (m, u, h, B)"
  shows "calls_carry B s (fst (snd (snd (ServeHTTP L ds w r s))))"
proof -
  let ?p0 = "base_path L ds (id_ds ds + 1) @ ''.0''"
  let ?s1 = "snd (saveRequest L ?p0 r s)"
  have "calls (fst (snd (snd (ServeHTTP L ds w r s)))) = calls s \<or>
        (\<exists>f r1. fst (saveRequest L ?p0 r s) = Inr f \<and> fst (readReq L ?p0 ?s1) = Inr r1 \<and>
           calls (fst (snd (snd (ServeHTTP L ds w r s))))
             = calls (snd (Client_Do Primary (primary ds) (r1\<lparr>RequestURI := []\<rparr>) (snd (readReq L ?p0 ?s1)))))"
    using ServeHTTP_run [of L ds r s w]
    by (elim disjE exE conjE) (auto split: sum.splits)
  then show ?thesis
  proof
    assume "calls (fst (snd (snd (ServeHTTP L ds w r s)))) = calls s"
    then show ?thesis by (rule calls_carry_same)
  next
    assume "\<exists>f r1. fst (saveRequest L ?p0 r s) = Inr f \<and> fst (readReq L ?p0 ?s1) = Inr r1 \<and>
           calls (fst (snd (snd (ServeHTTP L ds w r s))))
             = calls (snd (Client_Do Primary (primary ds) (r1\<lparr>RequestURI := []\<rparr>) (snd (readReq L ?p0 ?s1))))"
    then obtain f r1 where f: "fst (saveRequest L ?p0 r s) = Inr f"
      and r1: "fst (readReq L ?p0 ?s1) = Inr r1"
      and c: "calls (fst (snd (snd (ServeHTTP L ds w r s))))
             = calls (snd (Client_Do Primary (primary ds) (r1\<lparr>RequestURI := []\<rparr>) (snd (readReq L ?p0 ?s1))))"
      by blast
    have "calls_carry B s (fst (snd (snd (ServeHTTP L ds w r s))))
            = calls_carry B ?s1 (snd (Client_Do Primary (primary ds) (r1\<lparr>RequestURI := []\<rparr>) (snd (readReq L ?p0 ?s1))))"
      by (rule calls_carry_cong) (simp_all add: c)
    then show ?thesis
      using readReq_Do_carry [OF r1 saveRequest_Inr(2) [OF f] assms, of "r1\<lparr>RequestURI := []\<rparr>"]
      by simp
  qed
qed

lemma exchange_calls:
  assumes "Request_parse L (Request_wire L (Method r) (URL r) (header_of r s) (fst (read_all (Body r) s)))
             = Some (m, u, h, B)"
  shows "calls_carry B s (snd (snd (exchange L ds w r s)))"
proof (cases "snd (snd (snd (ServeHTTP L ds w r s)))")
  case None
  then show ?thesis by (simp add: exchange_world ServeHTTP_calls [OF assms])
next
  case (Some task)
  obtain w' ds' s' where run: "ServeHTTP L ds w r s = (w', ds', s', Some task)"
    using Some by (cases "ServeHTTP L ds w r s") auto
  from ServeHTTP_task [OF run] obtain sc where
    task: "task = secondary_go (ds\<lparr>id_ds := id_ds ds + 1\<rparr>)
              (readReq L (base_path L ds (id_ds ds + 1) @ ''.0''))
              (saveResp L (base_path L ds (id_ds ds + 1))) sc"
    by blast
  from ServeHTTP_run [of L ds r s w] run obtain f where
    f: "fst (saveRequest L (base_path L ds (id_ds ds + 1) @ ''.0'') r s) = Inr f"
    by (elim disjE exE conjE) auto
  from ServeHTTP_captured [OF f, of w] run
  have "files s' (base_path L ds (id_ds ds + 1) @ ''.0'')
          = Some (Request_wire L (Method r) (URL r) (header_of r s) (fst (read_all (Body r) s)))"
    by simp
  from secondary_go_calls [OF this assms]
  have "calls_carry B s' (task s')" unfolding task .
  moreover have "calls_carry B s s'" using ServeHTTP_calls [OF assms, of ds w] run by simp
  ultimately have "calls_carry B s (task s')" by (rule calls_carry_trans [rotated])
  with run show ?thesis by (simp add: exchange_world)
qed

subsection \<open>The reverse-proxy variant\<close>

lemma replay_loop_streams:
  assumes "files s reqFn = Some d" and "Request_parse L d = Some (m, u, h, B)"
    and "reqFn \<notin> (\<lambda>i. base @ ''.'' @ Sprintf_d (int i + 1)) ` set is"
    and "snd (snd (fst (replay_loop L base reqFn is rqs rws s))) = None"
  shows "\<exists>nrq. fst (fst (replay_loop L base reqFn is rqs rws s)) = rqs @ nrq \<and>
           length nrq = length is \<and>
           streams (snd (replay_loop L base reqFn is rqs rws s)) = streams s @ replicate (length is) B \<and>
           (\<forall>j < length is. Body (nrq ! j) = length (streams s) + j)"
  using assms
proof (induction "is" arbitrary: rqs rws s)
  case Nil
  then show ?case by simp
next
  case (Cons i "is")
  let ?p = "base @ ''.'' @ Sprintf_d (int i + 1)"
  let ?s1 = "snd (readReq L reqFn s)"
  let ?s2 = "snd (os_Create ?p ?s1)"
  from Cons.prems(3) have ne: "reqFn \<noteq> ?p"
    and rest: "reqFn \<notin> (\<lambda>i. base @ ''.'' @ Sprintf_d (int i + 1)) ` set is"
    by auto
  from Cons.prems(4) obtain rq wc where rq: "fst (readReq L reqFn s) = Inr rq"
    and wc: "fst (os_Create ?p ?s1) = Inr wc"
    by (auto simp add: replay_loop_Cons split: sum.splits simp del: replay_loop.simps)
  define w where "w = \<lparr>WriteCloser = wc, w_rw = None, h_rw = None, status_rw = 0\<rparr>"
  have eq: "replay_loop L base reqFn (i # is) rqs rws s
              = replay_loop L base reqFn is (rqs @ [rq]) (rws @ [w]) ?s2"
    using rq wc by (simp add: replay_loop_Cons w_def del: replay_loop.simps)
  from readReq_Inr [OF rq] Cons.prems(1,2) have
    b: "Body rq = length (streams s)" and st: "streams ?s2 = streams s @ [B]"
    by auto
  have f2: "files ?s2 reqFn = Some d" using ne Cons.prems(1) by simp
  from Cons.prems(4) have "snd (snd (fst (replay_loop L base reqFn is (rqs @ [rq]) (rws @ [w]) ?s2))) = None"
    unfolding eq .
  from Cons.IH [OF f2 Cons.prems(2) rest this] obtain nrq where
    a: "fst (fst (replay_loop L base reqFn is (rqs @ [rq]) (rws @ [w]) ?s2)) = (rqs @ [rq]) @ nrq"
    and l: "length nrq = length is"
    and s: "streams (snd (replay_loop L base reqFn is (rqs @ [rq]) (rws @ [w]) ?s2))
              = streams ?s2 @ replicate (length is) B"
    and n: "\<forall>j < length is. Body (nrq ! j) = length (streams ?s2) + j"
    by blast
  have "\<forall>j < length (i # is). Body ((rq # nrq) ! j) = length (streams s) + j"
  proof (intro allI impI)
    fix j assume "j < length (i # is)"
    then show "Body ((rq # nrq) ! j) = length (streams s) + j"
      using b n st by (cases j) simp_all
  qed
  moreover have "streams (snd (replay_loop L base reqFn (i # is) rqs rws s))
                   = streams s @ replicate (length (i # is)) B"
    unfolding eq s st by simp
  moreover have "fst (fst (replay_loop L base reqFn (i # is) rqs rws s)) = rqs @ (rq # nrq)"
    unfolding eq a by simp
  ultimately show ?case
    using l by (intro exI [of _ "rq # nrq"]) simp
qed

lemma secondary_go_rp_calls_carry:
  assumes "fst (read_all (Body r1) s) = B"
  shows "calls_carry B s (secondary_go_rp L ds w1 r1 sc s)"
  using assms by (simp add: calls_carry_def secondary_go_rp_calls)

lemma exchange_rp_calls:
  assumes "Request_parse L (Request_wire L (Method r) (URL r) (header_of r s) (fst (read_all (Body r) s)))
             = Some (m, u, h, B)"
  shows "calls_carry B s (snd (snd (exchange_rp L ds w r s)))"
proof -
  let ?base = "base_path L ds (id_ds ds + 1)"
  let ?s0 = "snd (snd (saveRequestResponse_rp L ds r 2 s))"
  obtain w' ds' s' t where run: "ServeHTTP_rp L ds w r s = (w', ds', s', t)"
    by (cases "ServeHTTP_rp L ds w r s") auto
  show ?thesis
  proof (cases t)
    case None
    with run have "calls s' = calls ?s0"
      by (auto simp add: ServeHTTP_rp_def case_prod_beta Let_def split: option.splits list.splits)
    with run None show ?thesis by (simp add: exchange_rp_def calls_carry_same)
  next
    case (Some task)
    from ServeHTTP_rp_Some [OF run [unfolded Some]] obtain r0 r1 w0 w1 s1 where
      res: "fst (snd (saveRequestResponse_rp L ds r 2 s)) = ([r0, r1], [w0, w1], None)"
      and s1: "s1 = Log LvlDebug ''request 1'' [(''req'', LStr (Method r0 @ '' '' @ URL r0))] ?s0"
      and s': "s' = snd (ReverseProxy_ServeHTTP L Primary (primary ds) (w0\<lparr>w_rw := Some w\<rparr>) r0 s1)"
      and task: "\<exists>sc. task = secondary_go_rp L ds' w1 r1 sc"
      by blast
    let ?w = "snd (writeRequest L (?base @ ''.0'') r s)"
    let ?lp = "replay_loop L ?base (?base @ ''.0'') [0..<2] [] [] ?w"
    from res have wr: "fst (writeRequest L (?base @ ''.0'') r s) = None"
      by (simp add: saveRequestResponse_rp_parts split: option.splits)
    with res have lres: "fst ?lp = ([r0, r1], [w0, w1], None)"
      by (simp add: saveRequestResponse_rp_parts)
    have sn: "?s0 = snd ?lp"
      using wr by (simp add: saveRequestResponse_rp_parts)
    have "[0..<2] = [0, Suc 0]" by (simp add: upt_rec numeral_2_eq_2)
    then have ni: "?base @ ''.0'' \<notin> (\<lambda>i. ?base @ ''.'' @ Sprintf_d (int i + 1)) ` set [0..<2]"
      by simp
    from lres have "snd (snd (fst ?lp)) = None" by simp
    from replay_loop_streams [OF writeRequest_None [OF wr] assms ni this] lres
    have st: "streams ?s0 = streams ?w @ [B, B]"
      and b0: "Body r0 = length (streams ?w)" and b1: "Body r1 = length (streams ?w) + 1"
      unfolding sn by (auto simp add: numeral_2_eq_2)
    have c0: "fst (read_all (Body r0) s1) = B"
      by (simp add: read_all_fst s1 st b0 nth_append)
    have c1: "fst (read_all (Body r1) s') = B"
      by (simp add: read_all_fst s' s1 st b0 b1 nth_append)
    have cs1: "calls s1 = calls s" by (simp add: s1)
    have h: "calls_carry B s s'"
      unfolding s' by (simp add: calls_carry_def c0 cs1)
    from task obtain sc where "task = secondary_go_rp L ds' w1 r1 sc" by blast
    with c1 have "calls_carry B s' (task s')"
      by (simp add: secondary_go_rp_calls_carry)
    with h have "calls_carry B s (task s')" by (rule calls_carry_trans)
    with run Some show ?thesis by (simp add: exchange_rp_def)
  qed
qed


subsection \<open>Isolation and fidelity\<close>

lemma fresh_replays_isolated:
  assumes "fresh_replays s s'"
  shows "\<exists>new. replays s' = replays s @ new \<and>
           (\<forall>i j. i < length new \<and> j < length new \<and> i \<noteq> j \<longrightarrow>
              header_of (fst (new ! j)) (Header_Set (fst (new ! i)) k v s')
                = header_of (fst (new ! j)) s')"
proof -
  from assms obtain new where n: "replays s' = replays s @ new"
    "length (heap s') = length (heap s) + length new"
    "\<forall>j < length new. Header (fst (new ! j)) = length (heap s) + j"
    unfolding fresh_replays_def by blast
  have "header_of (fst (new ! j)) (Header_Set (fst (new ! i)) k v s') = header_of (fst (new ! j)) s'"
    if "i < length new" "j < length new" "i \<noteq> j" for i j
  proof -
    from n(3) that have "Header (fst (new ! i)) \<noteq> Header (fst (new ! j))" by simp
    then show ?thesis by (simp add: header_of_def Header_Set_def)
  qed
  with n(1) show ?thesis by blast
qed

lemma all_snd_two:
  assumes "length xs = 2" and "\<forall>x \<in> set xs. snd x = B"
  shows "map snd xs = [B, B]"
proof -
  from assms(1) obtain a b where "xs = [a, b]"
    by (cases xs; cases "tl xs") auto
  with assms(2) show ?thesis by simp
qed

lemma all_body_two:
  assumes "length cs = 2" and "\<forall>c \<in> set cs. snd (snd c) = B"
  shows "map (\<lambda>c. snd (snd c)) cs = [B, B]"
proof -
  from assms(1) obtain a b where "cs = [a, b]"
    by (cases cs; cases "tl cs") auto
  with assms(2) show ?thesis by simp
qed

text \<open>
  C3. Let \<open>B\<close> be the body bytes of the inbound request, and let the library read back
  from the wire form of this request a request with the body \<open>B\<close>. Then in either
  variant every request object that a replay reader opened over the persisted bytes
  produced during the exchange, for the primary and for the secondary dispatch, carries
  a body of exactly the bytes \<open>B\<close>, and every request that reaches a backend is sent
  with exactly the bytes \<open>B\<close>.
\<close>

theorem replay_fidelity:
  assumes "Request_parse L (Request_wire L (Method r) (URL r) (header_of r s) B) = Some (m, u, h, B)"
    and "B = fst (read_all (Body r) s)"
  shows "(\<exists>new. replays (snd (snd (exchange L ds w r s))) = replays s @ new \<and>
                (\<forall>x \<in> set new. snd x = B)) \<and>
         (\<exists>sent. calls (snd (snd (exchange L ds w r s))) = calls s @ sent \<and>
                (\<forall>c \<in> set sent. snd (snd c) = B)) \<and>
         (\<exists>new. replays (snd (snd (exchange_rp L ds w r s))) = replays s @ new \<and>
                (\<forall>x \<in> set new. snd x = B)) \<and>
         (\<exists>sent. calls (snd (snd (exchange_rp L ds w r s))) = calls s @ sent \<and>
                (\<forall>c \<in> set sent. snd (snd c) = B))"
proof -
  from assms have c: "Request_parse L (Request_wire L (Method r) (URL r) (header_of r s)
      (fst (read_all (Body r) s))) = Some (m, u, h, B)"
    by simp
  from exchange_carry [OF c] exchange_rp_carry [OF c] exchange_calls [OF c] exchange_rp_calls [OF c]
  show ?thesis
    unfolding replays_carry_def calls_carry_def by blast
qed

theorem replay_fidelity_witness:
  "Request_parse lib0 (Request_wire lib0 (Method req0) (URL req0) (header_of req0 world0) ''hello'')
     = Some (''POST'', ''/'', [], ''hello'') \<and>
   ''hello'' = fst (read_all (Body req0) world0) \<and>
   map snd (replays (snd (snd (exchange lib0 server0 writer0 req0 world0)))) = [''hello'', ''hello''] \<and>
   map snd (replays (snd (snd (exchange_rp lib0 server0 writer0 req0 world0)))) = [''hello'', ''hello''] \<and>
   map (\<lambda>c. snd (snd c)) (calls (snd (snd (exchange_rp lib0 server0 writer0 req0 world0))))
     = [''hello'', ''hello'']"
proof -
  have c: "Request_parse lib0 (Request_wire lib0 (Method req0) (URL req0) (header_of req0 world0) ''hello'')
     = Some (''POST'', ''/'', [], ''hello'')"
    by code_simp
  have b: "''hello'' = fst (read_all (Body req0) world0)" by simp
  note T = replay_fidelity [OF c b, of server0 writer0]
  have e: "replays world0 = []" "calls world0 = []" by (simp_all add: world0_def)
  have l1: "length (replays (snd (snd (exchange lib0 server0 writer0 req0 world0)))) = 2"
    by code_simp
  have l2: "length (replays (snd (snd (exchange_rp lib0 server0 writer0 req0 world0)))) = 2"
    by code_simp
  have l3: "length (calls (snd (snd (exchange_rp lib0 server0 writer0 req0 world0)))) = 2"
    by code_simp
  from T l1 have "map snd (replays (snd (snd (exchange lib0 server0 writer0 req0 world0)))) = [''hello'', ''hello'']"
    by (intro all_snd_two) (auto simp add: e)
  moreover from T l2 have "map snd (replays (snd (snd (exchange_rp lib0 server0 writer0 req0 world0)))) = [''hello'', ''hello'']"
    by (intro all_snd_two) (auto simp add: e)
  moreover from T l3 have "map (\<lambda>c. snd (snd c)) (calls (snd (snd (exchange_rp lib0 server0 writer0 req0 world0))))
     = [''hello'', ''hello'']"
    by (intro all_body_two) (auto simp add: e)
  ultimately show ?thesis using c b by blast
qed





end
